theory Spec2Isabelle
  imports Main "HOL-Library.Log_Nat"
begin

section \<open>JavaScript numbers\<close>

text \<open>
  Every \<^verbatim>\<open>number\<close> of the converter is an IEEE-754 binary64 value. A finite value is
  kept as the rational it denotes; an arithmetic operation computes the exact rational
  result and rounds it to the nearest value with a 53-bit significand and an exponent
  of at least \<open>-1074\<close>, ties to even, overflowing to an infinity from \<open>2^1024\<close> on.
  The sign of a zero is not tracked (no expression of the converter divides by a
  negative zero).
\<close>

datatype number = NaN | PosInf | NegInf | Fin rat

definition ilog2 :: "rat \<Rightarrow> int" where
  "ilog2 q = (if 1 \<le> q then bitlen \<lfloor>q\<rfloor> - 1 else - bitlen (\<lceil>1 / q\<rceil> - 1))"

definition round_half_even :: "rat \<Rightarrow> int" where
  "round_half_even x =
     (let f = \<lfloor>x\<rfloor>; d = x - of_int f
      in if d < 1 / 2 then f else if 1 / 2 < d then f + 1 else if even f then f else f + 1)"

definition ulp_exp :: "rat \<Rightarrow> int" where
  "ulp_exp q = max (ilog2 \<bar>q\<bar> - 52) (- 1074)"

definition round53 :: "rat \<Rightarrow> rat" where
  "round53 q =
     (if q = 0 then 0
      else of_int (round_half_even (q / 2 powi ulp_exp q)) * 2 powi ulp_exp q)"

definition rnd :: "rat \<Rightarrow> number" where
  "rnd q =
     (let r = round53 q
      in if 2 powi 1024 \<le> \<bar>r\<bar> then (if 0 < q then PosInf else NegInf) else Fin r)"

fun js_mul :: "number \<Rightarrow> number \<Rightarrow> number" where
  "js_mul (Fin a) (Fin b) = rnd (a * b)"
| "js_mul NaN y = NaN"
| "js_mul x NaN = NaN"
| "js_mul PosInf (Fin b) = (if b = 0 then NaN else if 0 < b then PosInf else NegInf)"
| "js_mul NegInf (Fin b) = (if b = 0 then NaN else if 0 < b then NegInf else PosInf)"
| "js_mul (Fin a) PosInf = (if a = 0 then NaN else if 0 < a then PosInf else NegInf)"
| "js_mul (Fin a) NegInf = (if a = 0 then NaN else if 0 < a then NegInf else PosInf)"
| "js_mul PosInf PosInf = PosInf"
| "js_mul PosInf NegInf = NegInf"
| "js_mul NegInf PosInf = NegInf"
| "js_mul NegInf NegInf = PosInf"

fun js_div :: "number \<Rightarrow> number \<Rightarrow> number" where
  "js_div (Fin a) (Fin b) =
     (if b = 0 then (if a = 0 then NaN else if 0 < a then PosInf else NegInf)
      else rnd (a / b))"
| "js_div NaN y = NaN"
| "js_div x NaN = NaN"
| "js_div (Fin a) PosInf = Fin 0"
| "js_div (Fin a) NegInf = Fin 0"
| "js_div PosInf (Fin b) = (if 0 \<le> b then PosInf else NegInf)"
| "js_div NegInf (Fin b) = (if 0 \<le> b then NegInf else PosInf)"
| "js_div PosInf PosInf = NaN"
| "js_div PosInf NegInf = NaN"
| "js_div NegInf PosInf = NaN"
| "js_div NegInf NegInf = NaN"

fun js_add :: "number \<Rightarrow> number \<Rightarrow> number" where
  "js_add (Fin a) (Fin b) = rnd (a + b)"
| "js_add NaN y = NaN"
| "js_add x NaN = NaN"
| "js_add PosInf NegInf = NaN"
| "js_add NegInf PosInf = NaN"
| "js_add PosInf y = PosInf"
| "js_add x PosInf = PosInf"
| "js_add NegInf y = NegInf"
| "js_add x NegInf = NegInf"

text \<open>The comparison \<^verbatim>\<open>a < b\<close>: false whenever an operand is NaN.\<close>

fun js_lt :: "number \<Rightarrow> number \<Rightarrow> bool" where
  "js_lt (Fin a) (Fin b) = (a < b)"
| "js_lt NaN y = False"
| "js_lt x NaN = False"
| "js_lt x NegInf = False"
| "js_lt NegInf y = True"
| "js_lt PosInf y = False"
| "js_lt x PosInf = True"

fun Math_ceil :: "number \<Rightarrow> number" where
  "Math_ceil (Fin a) = Fin (of_int \<lceil>a\<rceil>)"
| "Math_ceil x = x"

text \<open>\<^verbatim>\<open>Math.round\<close> rounds to the nearest integer, a half towards \<open>+\<infinity>\<close>.\<close>

fun Math_round :: "number \<Rightarrow> number" where
  "Math_round (Fin a) = Fin (of_int \<lfloor>a + 1 / 2\<rfloor>)"
| "Math_round x = x"

subsection \<open>Strings that hold numbers\<close>

text \<open>
  A string value is either given by its characters, or it is the result of
  \<^verbatim>\<open>Number.prototype.toString\<close>, which is kept unexpanded: such a string is never
  empty, and \<^verbatim>\<open>parseFloat\<close> reads the number back.
\<close>

datatype js_string = Str string | NumToString number

fun truthy_string :: "js_string \<Rightarrow> bool" where
  "truthy_string (Str s) = (s \<noteq> [])"
| "truthy_string (NumToString x) = True"

definition is_digit :: "char \<Rightarrow> bool" where
  "is_digit c = (48 \<le> (of_char c :: nat) \<and> (of_char c :: nat) \<le> 57)"

text \<open>
  A string is a list of 8-bit characters; a character stands for the UTF-16 code unit of
  the same number, \<^verbatim>\<open>U+0000\<close> to \<^verbatim>\<open>U+00FF\<close>. \<open>is_white_unit\<close> is \<^verbatim>\<open>StrWhiteSpaceChar\<close> on
  code units, the white space and the line terminators that \<^verbatim>\<open>parseFloat\<close> skips:
  \<^verbatim>\<open>TAB\<close>, \<^verbatim>\<open>LF\<close>, \<^verbatim>\<open>VT\<close>, \<^verbatim>\<open>FF\<close>, \<^verbatim>\<open>CR\<close>, the space, \<^verbatim>\<open>U+00A0\<close>, \<^verbatim>\<open>U+1680\<close>, \<^verbatim>\<open>U+2000\<close> to \<^verbatim>\<open>U+200A\<close>,
  \<^verbatim>\<open>U+2028\<close>, \<^verbatim>\<open>U+2029\<close>, \<^verbatim>\<open>U+202F\<close>, \<^verbatim>\<open>U+205F\<close>, \<^verbatim>\<open>U+3000\<close> and \<^verbatim>\<open>U+FEFF\<close>.
\<close>

definition is_white_unit :: "nat \<Rightarrow> bool" where
  "is_white_unit u =
     (u \<in> set [0x09, 0x0A, 0x0B, 0x0C, 0x0D, 0x20, 0xA0, 0x1680, 0x2028, 0x2029, 0x202F, 0x205F,
                0x3000, 0xFEFF]
      \<or> (0x2000 \<le> u \<and> u \<le> 0x200A))"

definition is_white :: "char \<Rightarrow> bool" where
  "is_white c = is_white_unit (of_char c)"

definition digits_value :: "string \<Rightarrow> nat" where
  "digits_value ds = foldl (\<lambda>acc c. 10 * acc + ((of_char c :: nat) - 48)) 0 ds"

definition strip_sign :: "string \<Rightarrow> bool \<times> string" where
  "strip_sign s =
     (case s of
        c # r \<Rightarrow> if c = CHR ''-'' then (True, r) else if c = CHR ''+'' then (False, r) else (False, s)
      | [] \<Rightarrow> (False, s))"

definition exponent_part :: "string \<Rightarrow> int" where
  "exponent_part s =
     (case s of
        c # r \<Rightarrow>
          if c = CHR ''e'' \<or> c = CHR ''E'' then
            (let (neg, r') = strip_sign r; ds = takeWhile is_digit r'
             in if ds = [] then 0
                else if neg then - int (digits_value ds) else int (digits_value ds))
          else 0
      | [] \<Rightarrow> 0)"

text \<open>
  \<^verbatim>\<open>parseFloat\<close> on characters: leading white space, an optional sign, then
  \<^verbatim>\<open>Infinity\<close> or the longest decimal literal; NaN when there is none.
\<close>

definition parseFloat_chars :: "string \<Rightarrow> number" where
  "parseFloat_chars s =
     (let (neg, s2) = strip_sign (dropWhile is_white s)
      in if take 8 s2 = ''Infinity'' then (if neg then NegInf else PosInf)
         else
           let ip = takeWhile is_digit s2;
               r1 = dropWhile is_digit s2;
               (fp, r2) =
                 (case r1 of
                    c # r \<Rightarrow>
                      if c = CHR ''.'' then (takeWhile is_digit r, dropWhile is_digit r)
                      else ([], r1)
                  | [] \<Rightarrow> ([], r1))
           in if ip = [] \<and> fp = [] then NaN
              else
                let mag = (of_nat (digits_value ip) + of_nat (digits_value fp) / 10 ^ length fp)
                            * 10 powi exponent_part r2
                in rnd (if neg then - mag else mag))"

fun parseFloat :: "js_string \<Rightarrow> number" where
  "parseFloat (Str s) = parseFloat_chars s"
| "parseFloat (NumToString x) = x"

section \<open>The data model (types.ts)\<close>

datatype ExportFormat = GIF | MP4 | WEBM

record ConverterSettings =
  fps :: number
  duration :: number
  scale :: number
  quality :: number
  format :: ExportFormat
  transparent :: bool

section \<open>The browser, as far as the converter uses it\<close>

datatype error = Error string | TypeError | SyntaxError | NotSupportedError

text \<open>
  What \<^verbatim>\<open>doc.querySelector('svg')\<close> gives \<^verbatim>\<open>getDimensions\<close>: the two attributes
  (\<open>None\<close> for \<^verbatim>\<open>null\<close>) and \<^verbatim>\<open>viewBox.baseVal\<close> with its width and height, \<open>None\<close>
  when reading it throws (the element is no SVG element, or has no such value).
\<close>

record svg_root =
  attr_width :: "string option"
  attr_height :: "string option"
  viewBox_baseVal :: "(number \<times> number) option"

text \<open>
  The live \<^verbatim>\<open>svg\<close> element inside the off-screen container: the markup it was parsed
  from, its SMIL clock when \<^verbatim>\<open>setCurrentTime\<close> set it, and the text of the
  \<^verbatim>\<open>style\<close> children appended to it.
\<close>

record live_svg =
  source :: string
  current_time :: "number option"
  appended_styles :: "js_string list list"

datatype container = Container string "live_svg option"

datatype rgba = RGBA nat nat nat nat

fun alpha :: "rgba \<Rightarrow> nat" where
  "alpha (RGBA r g b a) = a"

definition transparent_black :: rgba where
  "transparent_black = RGBA 0 0 0 0"

datatype data_url = PngDataUrl number number "int \<times> int \<Rightarrow> rgba"

record blob =
  blob_parts :: "string list"
  blob_type :: string

record gif_options =
  images :: "data_url list"
  gifWidth :: number
  gifHeight :: number
  interval :: number
  numFrames :: number

text \<open>
  What \<^verbatim>\<open>gifshot.createGIF\<close> does with a request: the values it passes to
  \<^verbatim>\<open>progressCallback\<close>, in order, and the object it hands to the completion callback.
\<close>

record gif_result =
  progress_calls :: "number list"
  gif_error :: bool
  errorMsg :: string
  image :: string

datatype cdn_script = ScriptError | ScriptLoaded "(gif_options \<Rightarrow> gif_result) option"

record browser =
  has_context :: bool
  parse_xml_svg :: "string \<Rightarrow> svg_root option"
  parse_html_svg :: "string \<Rightarrow> bool"
  setCurrentTime :: "string \<Rightarrow> (number \<Rightarrow> bool) option"
  serializeToString :: "live_svg \<Rightarrow> string"
  image_loads :: "string \<Rightarrow> bool"
  rasterize :: "string \<Rightarrow> number \<times> number \<times> number \<times> number \<Rightarrow> int \<times> int \<Rightarrow> rgba"
  canvas_dimension :: "number \<Rightarrow> number"
  isTypeSupported :: "string \<Rightarrow> bool"
  recorder_accepts :: "string \<Rightarrow> bool"
  recorder_data :: "string \<Rightarrow> string list"
  window_gifshot :: "(gif_options \<Rightarrow> gif_result) option"
  gifshot_cdn :: cdn_script
  fetch_blob :: "string \<Rightarrow> blob option"

text \<open>
  \<^item> \<open>parse_xml_svg\<close>: \<^verbatim>\<open>new DOMParser().parseFromString(s, 'image/svg+xml').querySelector('svg')\<close>;
  \<^item> \<open>parse_html_svg\<close>: whether \<^verbatim>\<open>container.querySelector('svg')\<close> finds an element
    after \<^verbatim>\<open>container.innerHTML = s\<close>;
  \<^item> \<open>setCurrentTime\<close>: \<open>None\<close> when \<^verbatim>\<open>typeof liveSvg.setCurrentTime\<close> is not
    \<^verbatim>\<open>'function'\<close>, else the times at which the call throws;
  \<^item> \<open>image_loads\<close>: whether an \<^verbatim>\<open>Image\<close> whose source is a blob with this text fires
    \<^verbatim>\<open>onload\<close> (else \<^verbatim>\<open>onerror\<close>);
  \<^item> \<open>rasterize\<close>: the colour the decoded image contributes to a canvas pixel when
    drawn into the rectangle \<open>(x, y, w, h)\<close>;
  \<^item> \<open>canvas_dimension\<close>: the value \<^verbatim>\<open>canvas.width\<close> reads back after a number was
    assigned to it;
  \<^item> \<open>recorder_accepts\<close>: whether \<^verbatim>\<open>new MediaRecorder\<close> takes the MIME type (it throws
    otherwise); \<open>recorder_data\<close>: the chunks a session delivers until it stops;
  \<^item> \<open>fetch_blob\<close>: \<^verbatim>\<open>fetch(url).then(res => res.blob())\<close>, \<open>None\<close> when it rejects.
\<close>

datatype canvas_op =
    ClearRect number number number number
  | SetFillStyle string
  | FillRect number number number number
  | DrawImage string number number number number
  | ToDataURL string

datatype event =
    CaptureFrame number
  | SmilSeek number
  | CreateObjectURL string
  | RevokeObjectURL string
  | Canvas canvas_op
  | Progress number
  | RecorderStart string number
  | Wait number
  | RecorderStop
  | CreateGIF number

record converter =
  canvas_width :: number
  canvas_height :: number
  bitmap :: "int \<times> int \<Rightarrow> rgba"
  fillStyle :: rgba
  liveContainer :: "container option"
  trace :: "event list"

definition log_event :: "event \<Rightarrow> converter \<Rightarrow> converter" where
  "log_event e st = st\<lparr>trace := trace st @ [e]\<rparr>"

text \<open>The caller's progress callback: the model records each value it is given.\<close>

definition onProgress :: "number \<Rightarrow> converter \<Rightarrow> converter" where
  "onProgress percent st = log_event (Progress percent) st"

subsection \<open>The 2D context\<close>

definition hex_digit :: "char \<Rightarrow> nat option" where
  "hex_digit c =
     (let n = (of_char c :: nat)
      in if 48 \<le> n \<and> n \<le> 57 then Some (n - 48)
         else if 97 \<le> n \<and> n \<le> 102 then Some (n - 87)
         else if 65 \<le> n \<and> n \<le> 70 then Some (n - 55)
         else None)"

text \<open>A colour of the form \<^verbatim>\<open>#rrggbb\<close> is opaque; any other string is no colour here.\<close>

definition parse_color :: "string \<Rightarrow> rgba option" where
  "parse_color s =
     (case s of
        [h, r1, r2, g1, g2, b1, b2] \<Rightarrow>
          if h = CHR ''#'' then
            (case map hex_digit [r1, r2, g1, g2, b1, b2] of
               [Some x1, Some x2, Some y1, Some y2, Some z1, Some z2] \<Rightarrow>
                 Some (RGBA (16 * x1 + x2) (16 * y1 + y2) (16 * z1 + z2) 255)
             | _ \<Rightarrow> None)
          else None
      | _ \<Rightarrow> None)"

text \<open>
  Source-over compositing of a source pixel onto a destination pixel, on 8-bit
  channels: a fully transparent source leaves the destination, an opaque source
  replaces it.
\<close>

fun source_over :: "rgba \<Rightarrow> rgba \<Rightarrow> rgba" where
  "source_over (RGBA sr sg sb sa) (RGBA dr dg db da) =
     (if sa = 0 then RGBA dr dg db da
      else if 255 \<le> sa then RGBA sr sg sb sa
      else
        let ao = sa * 255 + da * (255 - sa);
            ch = (\<lambda>s d. (s * sa * 255 + d * da * (255 - sa)) div ao)
        in RGBA (ch sr dr) (ch sg dg) (ch sb db) (ao div 255))"

text \<open>A pixel \<open>(px, py)\<close> lies in the rectangle \<open>(x, y, w, h)\<close>; no pixel does when an
  argument is not finite (the context ignores such a call).\<close>

fun in_rect :: "number \<Rightarrow> number \<Rightarrow> number \<Rightarrow> number \<Rightarrow> int \<times> int \<Rightarrow> bool" where
  "in_rect (Fin x) (Fin y) (Fin w) (Fin h) (px, py) =
     (x \<le> of_int px \<and> of_int px + 1 \<le> x + w \<and> y \<le> of_int py \<and> of_int py + 1 \<le> y + h)"
| "in_rect x y w h p = False"

definition canvas_do :: "browser \<Rightarrow> canvas_op \<Rightarrow> converter \<Rightarrow> converter" where
  "canvas_do env op st =
     log_event (Canvas op)
       (case op of
          ClearRect x y w h \<Rightarrow>
            st\<lparr>bitmap := (\<lambda>p. if in_rect x y w h p then transparent_black else bitmap st p)\<rparr>
        | SetFillStyle s \<Rightarrow>
            (case parse_color s of Some c \<Rightarrow> st\<lparr>fillStyle := c\<rparr> | None \<Rightarrow> st)
        | FillRect x y w h \<Rightarrow>
            st\<lparr>bitmap := (\<lambda>p. if in_rect x y w h p then source_over (fillStyle st) (bitmap st p)
                                else bitmap st p)\<rparr>
        | DrawImage img x y w h \<Rightarrow>
            st\<lparr>bitmap := (\<lambda>p. if in_rect x y w h p
                                then source_over (rasterize env img (x, y, w, h) p) (bitmap st p)
                                else bitmap st p)\<rparr>
        | ToDataURL t \<Rightarrow> st)"

section \<open>SvgConverter (services/converter.ts)\<close>

text \<open>The constructor: a fresh canvas (300 by 150, transparent) and its 2D context.\<close>

definition fresh_converter :: converter where
  "fresh_converter =
     \<lparr>canvas_width = Fin 300, canvas_height = Fin 150, bitmap = (\<lambda>p. transparent_black),
      fillStyle = RGBA 0 0 0 255, liveContainer = None, trace = []\<rparr>"

definition new_SvgConverter :: "browser \<Rightarrow> error + converter" where
  "new_SvgConverter env =
     (if \<not> has_context env then Inl (Error ''Could not initialize canvas context'')
      else Inr fresh_converter)"

definition ensureContainer :: "converter \<Rightarrow> converter" where
  "ensureContainer st =
     (case liveContainer st of
        None \<Rightarrow> st\<lparr>liveContainer := Some (Container [] None)\<rparr>
      | Some c \<Rightarrow> st)"

definition fresh_svg :: "string \<Rightarrow> live_svg" where
  "fresh_svg s = \<lparr>source = s, current_time = None, appended_styles = []\<rparr>"

definition has_svg :: "browser \<Rightarrow> string \<Rightarrow> bool" where
  "has_svg env s = (s \<noteq> [] \<and> parse_html_svg env s)"

text \<open>\<^verbatim>\<open>container.innerHTML = s\<close>: the old children are dropped, \<open>s\<close> is parsed anew.\<close>

definition set_innerHTML :: "browser \<Rightarrow> string \<Rightarrow> converter \<Rightarrow> converter" where
  "set_innerHTML env s st =
     st\<lparr>liveContainer :=
          Some (Container s (if has_svg env s then Some (fresh_svg s) else None))\<rparr>"

definition querySelector_svg :: "converter \<Rightarrow> live_svg option" where
  "querySelector_svg st =
     (case liveContainer st of Some (Container s el) \<Rightarrow> el | None \<Rightarrow> None)"

definition set_live_svg :: "live_svg \<Rightarrow> converter \<Rightarrow> converter" where
  "set_live_svg el st =
     (case liveContainer st of
        Some (Container s old) \<Rightarrow> st\<lparr>liveContainer := Some (Container s (Some el))\<rparr>
      | None \<Rightarrow> st)"

subsection \<open>getDimensions\<close>

text \<open>
  \<^verbatim>\<open>parseFloat(svgEl.getAttribute(a) || svgEl.viewBox.baseVal.<a>.toString() || '500')\<close>,
  operand by operand: a later operand is evaluated only when the earlier one is falsy.
\<close>

definition dimension_of :: "string option \<Rightarrow> number option \<Rightarrow> error + number" where
  "dimension_of attr vb =
     (let from_viewBox =
            (case vb of
               None \<Rightarrow> Inl TypeError
             | Some v \<Rightarrow>
                 if truthy_string (NumToString v) then Inr (parseFloat (NumToString v))
                 else Inr (parseFloat (Str ''500'')))
      in case attr of
           None \<Rightarrow> from_viewBox
         | Some s \<Rightarrow> if truthy_string (Str s) then Inr (parseFloat (Str s)) else from_viewBox)"

definition getDimensions :: "browser \<Rightarrow> string \<Rightarrow> number \<Rightarrow> error + number \<times> number" where
  "getDimensions env svgString scl =
     (case parse_xml_svg env svgString of
        None \<Rightarrow> Inr (Math_round (js_mul (Fin 500) scl), Math_round (js_mul (Fin 500) scl))
      | Some svgEl \<Rightarrow>
          (case dimension_of (attr_width svgEl) (map_option fst (viewBox_baseVal svgEl)) of
             Inl e \<Rightarrow> Inl e
           | Inr width \<Rightarrow>
               (case dimension_of (attr_height svgEl) (map_option snd (viewBox_baseVal svgEl)) of
                  Inl e \<Rightarrow> Inl e
                | Inr height \<Rightarrow>
                    Inr (Math_round (js_mul width scl), Math_round (js_mul height scl)))))"

subsection \<open>captureFrame\<close>

text \<open>The text of the injected \<^verbatim>\<open>style\<close> element, a template literal with the time in it.\<close>

definition style_text :: "number \<Rightarrow> js_string list" where
  "style_text time =
     [Str ''\<newline>      * {\<newline>        animation-play-state: paused !important;\<newline>        animation-delay: -'',
      NumToString time,
      Str ''s !important;\<newline>        transition: none !important;\<newline>      }\<newline>    '']"

text \<open>
  Lines 114 to 130: the SMIL seek (\<^verbatim>\<open>try { liveSvg.setCurrentTime(time) } catch (e) {}\<close>
  when the method exists), then the \<^verbatim>\<open>style\<close> child.
\<close>

definition seek_smil :: "browser \<Rightarrow> number \<Rightarrow> live_svg \<Rightarrow> live_svg" where
  "seek_smil env time liveSvg =
     (case setCurrentTime env (source liveSvg) of
        None \<Rightarrow> liveSvg
      | Some throws \<Rightarrow> if throws time then liveSvg else liveSvg\<lparr>current_time := Some time\<rparr>)"

definition seek_css :: "number \<Rightarrow> live_svg \<Rightarrow> live_svg" where
  "seek_css time liveSvg =
     liveSvg\<lparr>appended_styles := appended_styles liveSvg @ [style_text time]\<rparr>"

text \<open>Lines 139 to 147, once the image has loaded.\<close>

definition draw_frame :: "browser \<Rightarrow> string \<Rightarrow> ConverterSettings \<Rightarrow> converter \<Rightarrow> converter" where
  "draw_frame env img settings st =
     (let w = canvas_width st; h = canvas_height st;
          st1 = canvas_do env (ClearRect (Fin 0) (Fin 0) w h) st;
          st2 = (if \<not> transparent settings
                 then canvas_do env (FillRect (Fin 0) (Fin 0) w h)
                        (canvas_do env (SetFillStyle ''#ffffff'') st1)
                 else st1);
          st3 = canvas_do env (DrawImage img (Fin 0) (Fin 0) w h) st2
      in canvas_do env (ToDataURL ''image/png'') st3)"

definition toDataURL :: "converter \<Rightarrow> data_url" where
  "toDataURL st = PngDataUrl (canvas_width st) (canvas_height st) (bitmap st)"

definition captureFrame ::
  "browser \<Rightarrow> string \<Rightarrow> number \<Rightarrow> ConverterSettings \<Rightarrow> converter \<Rightarrow> (error + data_url) \<times> converter"
where
  "captureFrame env svgString time settings st =
     (let st1 = set_innerHTML env svgString (ensureContainer (log_event (CaptureFrame time) st))
      in case querySelector_svg st1 of
           None \<Rightarrow> (Inl (Error ''Invalid SVG structure''), st1)
         | Some liveSvg \<Rightarrow>
             let seeked = seek_smil env time liveSvg;
                 st2 = (if current_time seeked = Some time then log_event (SmilSeek time) st1 else st1);
                 styled = seek_css time seeked;
                 st3 = set_live_svg styled st2;
                 svgBlob = serializeToString env styled;
                 st4 = log_event (CreateObjectURL svgBlob) st3;
                 (res, st5) =
                   (if image_loads env svgBlob
                    then (let st' = draw_frame env svgBlob settings st4 in (Inr (toDataURL st'), st'))
                    else (Inl (Error ''Failed to load SVG frame''), st4))
             in (res, set_innerHTML env [] (log_event (RevokeObjectURL svgBlob) st5)))"

subsection \<open>generateGif\<close>

definition waitForGifshot :: "browser \<Rightarrow> error + (gif_options \<Rightarrow> gif_result)" where
  "waitForGifshot env =
     (case window_gifshot env of
        Some gs \<Rightarrow> Inr gs
      | None \<Rightarrow>
          (case gifshot_cdn env of
             ScriptError \<Rightarrow> Inl (Error ''Failed to load GIF engine from CDN.'')
           | ScriptLoaded None \<Rightarrow> Inl (Error ''Gifshot failed to initialize after dynamic load.'')
           | ScriptLoaded (Some gs) \<Rightarrow> Inr gs))"

text \<open>
  The capture loop of lines 165 to 169; \<open>capture\<close> stands for
  \<^verbatim>\<open>time => this.captureFrame(svgString, time, settings)\<close>. The counter is a number:
  \<^verbatim>\<open>i++\<close> is a rounded addition, and the loop need not end, so the function is partial.
\<close>

partial_function (option) gif_loop ::
  "(number \<Rightarrow> converter \<Rightarrow> (error + data_url) \<times> converter) \<Rightarrow> number \<Rightarrow> number \<Rightarrow> number \<Rightarrow>
   data_url list \<Rightarrow> converter \<Rightarrow> ((error + data_url list) \<times> converter) option"
where
  "gif_loop capture totalFrames frameDuration i frames st =
     (if js_lt i totalFrames then
        (case capture (js_mul i frameDuration) st of
           (Inl e, st') \<Rightarrow> Some (Inl e, st')
         | (Inr dataUrl, st') \<Rightarrow>
             gif_loop capture totalFrames frameDuration (js_add i (Fin 1))
               (frames @ [dataUrl])
               (onProgress (Math_round (js_mul (js_div i totalFrames) (Fin 60))) st'))
      else Some (Inr frames, st))"

definition generateGif ::
  "browser \<Rightarrow> string \<Rightarrow> ConverterSettings \<Rightarrow> converter \<Rightarrow> ((error + blob) \<times> converter) option"
where
  "generateGif env svgString settings st =
     (case waitForGifshot env of
        Inl e \<Rightarrow> Some (Inl e, st)
      | Inr gs \<Rightarrow>
          (let totalFrames = Math_ceil (js_mul (duration settings) (fps settings));
               frameDuration = js_div (Fin 1) (fps settings)
           in case gif_loop (\<lambda>time. captureFrame env svgString time settings)
                     totalFrames frameDuration (Fin 0) [] st of
                None \<Rightarrow> None
              | Some (Inl e, st') \<Rightarrow> Some (Inl e, st')
              | Some (Inr frames, st') \<Rightarrow>
                  (let obj = gs \<lparr>images = frames, gifWidth = canvas_width st',
                                 gifHeight = canvas_height st', interval = frameDuration,
                                 numFrames = totalFrames\<rparr>;
                       st'' = foldl (\<lambda>s p. onProgress (js_add (Fin 60) (Math_round (js_mul p (Fin 40)))) s)
                                (log_event (CreateGIF totalFrames) st') (progress_calls obj)
                   in if \<not> gif_error obj
                      then (case fetch_blob env (image obj) of
                              None \<Rightarrow> None
                            | Some b \<Rightarrow> Some (Inr b, st''))
                      else Some (Inl (Error (''GIF generation failed: '' @ errorMsg obj)), st''))))"

subsection \<open>generateVideo\<close>

definition mimeTypes :: "string list" where
  "mimeTypes = [''video/mp4;codecs=h264'', ''video/mp4'', ''video/webm;codecs=vp9'', ''video/webm'']"

definition selectedMime :: "browser \<Rightarrow> string" where
  "selectedMime env =
     (case find (isTypeSupported env) mimeTypes of Some m \<Rightarrow> m | None \<Rightarrow> ''video/webm'')"

text \<open>
  The loop of lines 215 to 220; \<open>pace\<close> is the delay \<^verbatim>\<open>(1000 / settings.fps) + 5\<close> of
  the \<^verbatim>\<open>setTimeout\<close> that follows each draw.
\<close>

partial_function (option) video_loop ::
  "(number \<Rightarrow> converter \<Rightarrow> (error + data_url) \<times> converter) \<Rightarrow> number \<Rightarrow> number \<Rightarrow> number \<Rightarrow>
   number \<Rightarrow> converter \<Rightarrow> ((error + unit) \<times> converter) option"
where
  "video_loop capture pace totalFrames frameDuration i st =
     (if js_lt i totalFrames then
        (case capture (js_mul i frameDuration) st of
           (Inl e, st') \<Rightarrow> Some (Inl e, st')
         | (Inr dataUrl, st') \<Rightarrow>
             video_loop capture pace totalFrames frameDuration (js_add i (Fin 1))
               (onProgress (Math_round (js_mul (js_div i totalFrames) (Fin 100)))
                  (log_event (Wait pace) st')))
      else Some (Inr (), st))"

definition generateVideo ::
  "browser \<Rightarrow> string \<Rightarrow> ConverterSettings \<Rightarrow> converter \<Rightarrow> ((error + blob) \<times> converter) option"
where
  "generateVideo env svgString settings st =
     (let mime = selectedMime env
      in if \<not> recorder_accepts env mime then Some (Inl NotSupportedError, st)
         else
           let totalFrames = Math_ceil (js_mul (duration settings) (fps settings));
               frameDuration = js_div (Fin 1) (fps settings);
               st1 = log_event (RecorderStart mime (js_mul (Fin 25000000) (quality settings))) st
           in case video_loop (\<lambda>time. captureFrame env svgString time settings)
                     (js_add (js_div (Fin 1000) (fps settings)) (Fin 5))
                     totalFrames frameDuration (Fin 0) st1 of
                None \<Rightarrow> None
              | Some (Inl e, st') \<Rightarrow> Some (Inl e, st')
              | Some (Inr u, st') \<Rightarrow>
                  Some (Inr \<lparr>blob_parts = filter (\<lambda>c. c \<noteq> []) (recorder_data env mime),
                             blob_type = mime\<rparr>,
                        log_event RecorderStop st'))"

subsection \<open>convert\<close>

text \<open>Assigning \<^verbatim>\<open>canvas.width\<close> or \<^verbatim>\<open>canvas.height\<close> resets the bitmap and the context.\<close>

definition resize_canvas :: "browser \<Rightarrow> number \<Rightarrow> number \<Rightarrow> converter \<Rightarrow> converter" where
  "resize_canvas env width height st =
     st\<lparr>canvas_width := canvas_dimension env width, canvas_height := canvas_dimension env height,
        bitmap := (\<lambda>p. transparent_black), fillStyle := RGBA 0 0 0 255\<rparr>"

definition convert ::
  "browser \<Rightarrow> string \<Rightarrow> ConverterSettings \<Rightarrow> converter \<Rightarrow> ((error + blob) \<times> converter) option"
where
  "convert env svgString settings st =
     (case getDimensions env svgString (scale settings) of
        Inl e \<Rightarrow> Some (Inl e, st)
      | Inr (width, height) \<Rightarrow>
          (let st1 = resize_canvas env width height st
           in if format settings = GIF then generateGif env svgString settings st1
              else generateVideo env svgString settings st1))"

section \<open>analyzeSvg (services/geminiService.ts)\<close>

datatype json = JNull | JBool bool | JNum number | JStr string | JArr "json list"
  | JObj "(string \<times> json) list"

text \<open>Truthiness of a parsed JSON value; a missing property (\<^verbatim>\<open>undefined\<close>) is falsy.\<close>

fun truthy :: "json \<Rightarrow> bool" where
  "truthy JNull = False"
| "truthy (JBool b) = b"
| "truthy (JNum x) = (x \<noteq> NaN \<and> x \<noteq> Fin 0)"
| "truthy (JStr s) = (s \<noteq> [])"
| "truthy (JArr xs) = True"
| "truthy (JObj kvs) = True"

text \<open>\<^verbatim>\<open>result.key || dflt\<close>.\<close>

definition or_default :: "json \<Rightarrow> string \<Rightarrow> json \<Rightarrow> json" where
  "or_default result key dflt =
     (case result of
        JObj kvs \<Rightarrow> (case map_of kvs key of Some v \<Rightarrow> if truthy v then v else dflt | None \<Rightarrow> dflt)
      | _ \<Rightarrow> dflt)"

record SvgAnalysis =
  hasSmil :: json
  hasCssAnimation :: json
  viewBox :: json
  width :: json
  height :: json
  suggestedDuration :: json

definition fallback_analysis :: SvgAnalysis where
  "fallback_analysis =
     \<lparr>hasSmil = JBool False, hasCssAnimation = JBool False, viewBox = JNull,
      width = JNum (Fin 500), height = JNum (Fin 500), suggestedDuration = JNum (Fin 5)\<rparr>"

text \<open>
  The reply of \<^verbatim>\<open>ai.models.generateContent\<close>: the request fails with a message, or a
  response arrives whose \<^verbatim>\<open>text\<close> is a string or missing. \<^verbatim>\<open>JSON.parse\<close> is a
  parameter (\<open>None\<close> when it throws); on \<^verbatim>\<open>'{}'\<close> it gives the empty object.
\<close>

datatype gemini_reply = RequestFailed string | ResponseText "string option"

text \<open>The body of the \<^verbatim>\<open>try\<close> block (lines 9 to 41); the request sends the first 5000
  characters of the markup.\<close>

definition analyzeSvg_try ::
  "(string \<Rightarrow> gemini_reply) \<Rightarrow> (string \<Rightarrow> json option) \<Rightarrow> string \<Rightarrow> error + SvgAnalysis"
where
  "analyzeSvg_try generateContent JSON_parse svgCode =
     (case generateContent (take 5000 svgCode) of
        RequestFailed msg \<Rightarrow> Inl (Error msg)
      | ResponseText text \<Rightarrow>
          (case (case text of
                   None \<Rightarrow> Some (JObj [])
                 | Some t \<Rightarrow> if t \<noteq> [] then JSON_parse t else Some (JObj [])) of
             None \<Rightarrow> Inl SyntaxError
           | Some JNull \<Rightarrow> Inl TypeError
           | Some result \<Rightarrow>
               Inr \<lparr>hasSmil = or_default result ''hasSmil'' (JBool False),
                    hasCssAnimation = or_default result ''hasCssAnimation'' (JBool False),
                    viewBox = or_default result ''viewBox'' JNull,
                    width = or_default result ''width'' (JNum (Fin 500)),
                    height = or_default result ''height'' (JNum (Fin 500)),
                    suggestedDuration = or_default result ''suggestedDuration'' (JNum (Fin 5))\<rparr>))"

text \<open>The \<^verbatim>\<open>catch\<close> block logs the error and returns the defaults.\<close>

definition analyzeSvg ::
  "(string \<Rightarrow> gemini_reply) \<Rightarrow> (string \<Rightarrow> json option) \<Rightarrow> string \<Rightarrow> SvgAnalysis"
where
  "analyzeSvg generateContent JSON_parse svgCode =
     (case analyzeSvg_try generateContent JSON_parse svgCode of
        Inl e \<Rightarrow> fallback_analysis
      | Inr analysis \<Rightarrow> analysis)"

section \<open>The download (App.tsx)\<close>

text \<open>
  \<^verbatim>\<open>downloadResult\<close> (line 140) names the exported file after the settings:
  \<^verbatim>\<open>`vector-export-${Date.now()}.${settings.format.toLowerCase()}`\<close>. The enum's values are
  \<^verbatim>\<open>'GIF'\<close>, \<^verbatim>\<open>'MP4'\<close> and \<^verbatim>\<open>'WEBM'\<close>; \<open>now\<close> is the time stamp, as text.
\<close>

fun download_extension :: "ExportFormat \<Rightarrow> string" where
  "download_extension GIF = ''gif''"
| "download_extension MP4 = ''mp4''"
| "download_extension WEBM = ''webm''"

definition download_name :: "string \<Rightarrow> ConverterSettings \<Rightarrow> string" where
  "download_name now settings = ''vector-export-'' @ now @ ''.'' @ download_extension (format settings)"

section \<open>Reading a run\<close>

text \<open>What a trace says: the times frames were seeked at, the values given to
  \<^verbatim>\<open>onProgress\<close>, the calls on the 2D context, the blobs turned into object URLs.\<close>

fun capture_times :: "event list \<Rightarrow> number list" where
  "capture_times [] = []"
| "capture_times (CaptureFrame t # es) = t # capture_times es"
| "capture_times (e # es) = capture_times es"

fun progress_values :: "event list \<Rightarrow> number list" where
  "progress_values [] = []"
| "progress_values (Progress v # es) = v # progress_values es"
| "progress_values (e # es) = progress_values es"

fun canvas_ops :: "event list \<Rightarrow> canvas_op list" where
  "canvas_ops [] = []"
| "canvas_ops (Canvas op # es) = op # canvas_ops es"
| "canvas_ops (e # es) = canvas_ops es"

fun blob_texts :: "event list \<Rightarrow> string list" where
  "blob_texts [] = []"
| "blob_texts (CreateObjectURL b # es) = b # blob_texts es"
| "blob_texts (e # es) = blob_texts es"

text \<open>The markup a frame is rasterized from: the serialized element after both seeks.\<close>

definition seeked_markup :: "browser \<Rightarrow> string \<Rightarrow> number \<Rightarrow> string" where
  "seeked_markup env svgString time =
     serializeToString env (seek_css time (seek_smil env time (fresh_svg svgString)))"

definition frame_ok :: "browser \<Rightarrow> string \<Rightarrow> number \<Rightarrow> bool" where
  "frame_ok env svgString time =
     (has_svg env svgString \<and> image_loads env (seeked_markup env svgString time))"

definition frame_error :: "browser \<Rightarrow> string \<Rightarrow> error" where
  "frame_error env svgString =
     (if has_svg env svgString then Error ''Failed to load SVG frame''
      else Error ''Invalid SVG structure'')"

definition frame_ops :: "ConverterSettings \<Rightarrow> string \<Rightarrow> number \<Rightarrow> number \<Rightarrow> canvas_op list" where
  "frame_ops settings img w h =
     ClearRect (Fin 0) (Fin 0) w h #
     (if transparent settings then [] else [SetFillStyle ''#ffffff'', FillRect (Fin 0) (Fin 0) w h]) @
     [DrawImage img (Fin 0) (Fin 0) w h, ToDataURL ''image/png'']"

definition frame_events ::
  "browser \<Rightarrow> string \<Rightarrow> number \<Rightarrow> ConverterSettings \<Rightarrow> number \<Rightarrow> number \<Rightarrow> event list"
where
  "frame_events env svgString time settings w h =
     CaptureFrame time #
     (if has_svg env svgString then
        (if current_time (seek_smil env time (fresh_svg svgString)) = Some time
         then [SmilSeek time] else []) @
        [CreateObjectURL (seeked_markup env svgString time)] @
        (if image_loads env (seeked_markup env svgString time)
         then map Canvas (frame_ops settings (seeked_markup env svgString time) w h) else []) @
        [RevokeObjectURL (seeked_markup env svgString time)]
      else [])"

text \<open>The two loops unrolled over the frame indices \<open>ks\<close>.\<close>

fun gif_frames ::
  "(number \<Rightarrow> converter \<Rightarrow> (error + data_url) \<times> converter) \<Rightarrow> number \<Rightarrow> number \<Rightarrow> nat list \<Rightarrow>
   data_url list \<Rightarrow> converter \<Rightarrow> (error + data_url list) \<times> converter"
where
  "gif_frames capture totalFrames frameDuration [] frames st = (Inr frames, st)"
| "gif_frames capture totalFrames frameDuration (k # ks) frames st =
     (case capture (js_mul (Fin (of_nat k)) frameDuration) st of
        (Inl e, st') \<Rightarrow> (Inl e, st')
      | (Inr dataUrl, st') \<Rightarrow>
          gif_frames capture totalFrames frameDuration ks (frames @ [dataUrl])
            (onProgress (Math_round (js_mul (js_div (Fin (of_nat k)) totalFrames) (Fin 60))) st'))"

fun video_frames ::
  "(number \<Rightarrow> converter \<Rightarrow> (error + data_url) \<times> converter) \<Rightarrow> number \<Rightarrow> number \<Rightarrow> number \<Rightarrow>
   nat list \<Rightarrow> converter \<Rightarrow> (error + unit) \<times> converter"
where
  "video_frames capture pace totalFrames frameDuration [] st = (Inr (), st)"
| "video_frames capture pace totalFrames frameDuration (k # ks) st =
     (case capture (js_mul (Fin (of_nat k)) frameDuration) st of
        (Inl e, st') \<Rightarrow> (Inl e, st')
      | (Inr dataUrl, st') \<Rightarrow>
          video_frames capture pace totalFrames frameDuration ks
            (onProgress (Math_round (js_mul (js_div (Fin (of_nat k)) totalFrames) (Fin 100)))
               (log_event (Wait pace) st')))"

text \<open>
  The number of frames for a duration \<open>d\<close> and a rate \<open>f\<close>: \<^verbatim>\<open>Math.ceil\<close> of the rounded
  product. The frame times and the progress values of a run of \<open>n\<close> frames.
\<close>

definition frame_count :: "rat \<Rightarrow> rat \<Rightarrow> nat" where
  "frame_count d f = nat \<lceil>round53 (d * f)\<rceil>"

definition frame_time :: "number \<Rightarrow> nat \<Rightarrow> number" where
  "frame_time fpsv i = js_mul (Fin (of_nat i)) (js_div (Fin 1) fpsv)"

definition frame_times :: "number \<Rightarrow> nat \<Rightarrow> number list" where
  "frame_times fpsv n = map (frame_time fpsv) [0..<n]"

definition progress_at :: "number \<Rightarrow> nat \<Rightarrow> nat \<Rightarrow> number" where
  "progress_at share n i = Math_round (js_mul (js_div (Fin (of_nat i)) (Fin (of_nat n))) share)"

definition capture_progress :: "number \<Rightarrow> nat \<Rightarrow> number list" where
  "capture_progress share n = map (progress_at share n) [0..<n]"

definition encode_progress :: "number list \<Rightarrow> number list" where
  "encode_progress ps = map (\<lambda>p. js_add (Fin 60) (Math_round (js_mul p (Fin 40)))) ps"

section \<open>An example browser and the application's settings\<close>

definition example_gifshot :: "gif_options \<Rightarrow> gif_result" where
  "example_gifshot req =
     \<lparr>progress_calls = [Fin (1 / 2), Fin 1], gif_error = False, errorMsg = [],
      image = ''data:image/gif;base64,R0lGODlh''\<rparr>"

definition example_browser :: browser where
  "example_browser =
     \<lparr>has_context = True,
      parse_xml_svg = (\<lambda>s. if s = [] then None
                           else Some \<lparr>attr_width = Some ''400'', attr_height = Some ''400'',
                                      viewBox_baseVal = Some (Fin 400, Fin 400)\<rparr>),
      parse_html_svg = (\<lambda>s. s \<noteq> []),
      setCurrentTime = (\<lambda>s. Some (\<lambda>t. False)),
      serializeToString = source,
      image_loads = (\<lambda>b. True),
      rasterize = (\<lambda>img rect p. if fst p < 100 then RGBA 0 0 0 0 else RGBA 99 102 241 255),
      canvas_dimension = (\<lambda>x. x),
      isTypeSupported = (\<lambda>m. True),
      recorder_accepts = (\<lambda>m. True),
      recorder_data = (\<lambda>m. [''webm-or-mp4-bytes'']),
      window_gifshot = Some example_gifshot,
      gifshot_cdn = ScriptError,
      fetch_blob = (\<lambda>u. Some \<lparr>blob_parts = [u], blob_type = ''image/gif''\<rparr>)\<rparr>"




text \<open>A reply of the metadata service, as parsed: a negative width, a zero height.\<close>

definition example_reply :: json where
  "example_reply =
     JObj [(''hasSmil'', JBool True), (''hasCssAnimation'', JBool False),
           (''width'', JNum (Fin (- 5))), (''height'', JNum (Fin 0)),
           (''suggestedDuration'', JNum (Fin 3))]"

text \<open>The settings the application starts with (App.tsx).\<close>

definition app_settings :: ConverterSettings where
  "app_settings =
     \<lparr>fps = Fin 30, duration = Fin 4, scale = Fin 2, quality = Fin 1, format = MP4,
      transparent = False\<rparr>"

section \<open>Rounding: exact on small integers, and monotone\<close>

lemma pow2_less_imp_less:
  assumes "(2::rat) powi a < 2 powi b"
  shows "a < b"
proof (rule ccontr)
  assume "\<not> a < b"
  then have "b \<le> a" by simp
  then have "(2::rat) powi b \<le> 2 powi a" by (rule power_int_increasing) simp
  with assms show False by simp
qed

lemma ilog2_bounds:
  assumes "0 < q"
  shows "2 powi ilog2 q \<le> q" and "q < 2 powi (ilog2 q + 1)"
proof -
  have "2 powi ilog2 q \<le> q \<and> q < 2 powi (ilog2 q + 1)"
  proof (cases "1 \<le> q")
    case True
    then have pos: "0 < \<lfloor>q\<rfloor>" by linarith
    from bitlen_bounds[OF pos]
    have lo: "2 ^ nat (bitlen \<lfloor>q\<rfloor> - 1) \<le> \<lfloor>q\<rfloor>" and hi: "\<lfloor>q\<rfloor> < 2 ^ nat (bitlen \<lfloor>q\<rfloor>)"
      by auto
    have b1: "1 \<le> bitlen \<lfloor>q\<rfloor>"
      using pos bitlen_eq_zero_iff[of "\<lfloor>q\<rfloor>"] bitlen_nonneg[of "\<lfloor>q\<rfloor>"] by linarith
    have "(2::rat) powi (bitlen \<lfloor>q\<rfloor> - 1) = of_int (2 ^ nat (bitlen \<lfloor>q\<rfloor> - 1))"
      using b1 by (simp add: power_int_def)
    also have "\<dots> \<le> of_int \<lfloor>q\<rfloor>" using lo by (simp only: of_int_le_iff)
    also have "\<dots> \<le> q" by simp
    finally have A: "(2::rat) powi (bitlen \<lfloor>q\<rfloor> - 1) \<le> q" .
    have "\<lfloor>q\<rfloor> + 1 \<le> 2 ^ nat (bitlen \<lfloor>q\<rfloor>)" using hi by simp
    then have le1: "(of_int (\<lfloor>q\<rfloor> + 1) :: rat) \<le> of_int (2 ^ nat (bitlen \<lfloor>q\<rfloor>))"
      by (simp only: of_int_le_iff)
    have "q < of_int (\<lfloor>q\<rfloor> + 1)" by linarith
    then have "q < of_int (2 ^ nat (bitlen \<lfloor>q\<rfloor>))" using le1 by (rule less_le_trans)
    also have "\<dots> = 2 powi (bitlen \<lfloor>q\<rfloor>)" using b1 by (simp add: power_int_def)
    finally have B: "q < 2 powi (bitlen \<lfloor>q\<rfloor> - 1 + 1)" by simp
    from A B True show ?thesis by (simp add: ilog2_def)
  next
    case False
    then have q1: "q < 1" by simp
    define n where "n = \<lceil>1 / q\<rceil>"
    have inv: "1 < 1 / q" using assms q1 by (simp add: field_simps)
    then have n2: "2 \<le> n" unfolding n_def by linarith
    then have pos: "0 < n - 1" by simp
    define b where "b = bitlen (n - 1)"
    from bitlen_bounds[OF pos]
    have lo: "2 ^ nat (b - 1) \<le> n - 1" and hi: "n - 1 < 2 ^ nat b"
      unfolding b_def by auto
    have b1: "1 \<le> b"
      using pos bitlen_eq_zero_iff[of "n - 1"] bitlen_nonneg[of "n - 1"] unfolding b_def by linarith
    have le_n: "1 / q \<le> of_int n" unfolding n_def by linarith
    have gt_n: "of_int (n - 1) < 1 / q" unfolding n_def by linarith
    have "n \<le> 2 ^ nat b" using hi by simp
    then have "(of_int n :: rat) \<le> of_int (2 ^ nat b)" by (simp only: of_int_le_iff)
    also have "(of_int (2 ^ nat b) :: rat) = 2 ^ nat b" by simp
    finally have "(of_int n :: rat) \<le> 2 ^ nat b" .
    with le_n have "1 / q \<le> 2 ^ nat b" by (rule order_trans)
    then have "1 \<le> 2 ^ nat b * q" using assms by (simp add: field_simps)
    then have "1 / 2 ^ nat b \<le> q" by (simp add: field_simps)
    moreover have "(2::rat) powi (- b) = 1 / 2 ^ nat b"
      using b1 by (simp add: power_int_def field_simps)
    ultimately have A: "(2::rat) powi (- b) \<le> q" by simp
    have "(of_int (2 ^ nat (b - 1)) :: rat) \<le> of_int (n - 1)" using lo by (simp only: of_int_le_iff)
    then have "(of_int (2 ^ nat (b - 1)) :: rat) < 1 / q" using gt_n by (rule le_less_trans)
    moreover have "(of_int (2 ^ nat (b - 1)) :: rat) = 2 ^ nat (b - 1)" by simp
    ultimately have "2 ^ nat (b - 1) < 1 / q" by simp
    then have "2 ^ nat (b - 1) * q < 1" using assms by (simp add: field_simps)
    then have "q < 1 / 2 ^ nat (b - 1)" by (simp add: field_simps)
    moreover have "(2::rat) powi (- b + 1) = 1 / 2 ^ nat (b - 1)"
    proof -
      have "- b + 1 = - (b - 1)" by simp
      then have "(2::rat) powi (- b + 1) = 2 powi (- (b - 1))" by simp
      also have "\<dots> = inverse (2 powi (b - 1))" by (simp only: power_int_minus)
      also have "\<dots> = 1 / 2 ^ nat (b - 1)" using b1 by (simp add: power_int_def field_simps)
      finally show ?thesis .
    qed
    ultimately have B: "q < 2 powi (- b + 1)" by simp
    from A B False show ?thesis by (simp add: ilog2_def n_def b_def)
  qed
  then show "2 powi ilog2 q \<le> q" and "q < 2 powi (ilog2 q + 1)" by auto
qed

lemma ilog2_unique:
  assumes "0 < q" "2 powi k \<le> q" "q < 2 powi (k + 1)"
  shows "ilog2 q = k"
proof -
  have a: "(2::rat) powi ilog2 q < 2 powi (k + 1)"
    using ilog2_bounds(1)[OF assms(1)] assms(3) by linarith
  have b: "(2::rat) powi k < 2 powi (ilog2 q + 1)"
    using ilog2_bounds(2)[OF assms(1)] assms(2) by linarith
  from a have "ilog2 q < k + 1" by (rule pow2_less_imp_less)
  moreover from b have "k < ilog2 q + 1" by (rule pow2_less_imp_less)
  ultimately show ?thesis by simp
qed

lemma ilog2_mono:
  assumes "0 < p" "p \<le> q"
  shows "ilog2 p \<le> ilog2 q"
proof -
  have "0 < q" using assms by simp
  have "(2::rat) powi ilog2 p \<le> p" using ilog2_bounds(1)[OF assms(1)] .
  also have "p \<le> q" by fact
  also have "q < 2 powi (ilog2 q + 1)" using ilog2_bounds(2)[OF \<open>0 < q\<close>] .
  finally have "(2::rat) powi ilog2 p < 2 powi (ilog2 q + 1)" .
  then have "ilog2 p < ilog2 q + 1" by (rule pow2_less_imp_less)
  then show ?thesis by simp
qed

lemma round_half_even_of_int [simp]: "round_half_even (of_int n) = n"
  by (simp add: round_half_even_def)

lemma round_half_even_pow2 [simp]: "round_half_even (2 ^ n) = 2 ^ n"
  using round_half_even_of_int[of "2 ^ n"] by simp

lemma round_half_even_0 [simp]: "round_half_even 0 = 0"
  using round_half_even_of_int[of 0] by simp

lemma round_half_even_mono:
  assumes "x \<le> y"
  shows "round_half_even x \<le> round_half_even y"
proof -
  have fl: "\<lfloor>x\<rfloor> \<le> \<lfloor>y\<rfloor>" using assms by (rule floor_mono)
  have ux: "round_half_even x \<le> \<lfloor>x\<rfloor> + 1" by (simp add: round_half_even_def Let_def)
  have ly: "\<lfloor>y\<rfloor> \<le> round_half_even y" by (simp add: round_half_even_def Let_def)
  show ?thesis
  proof (cases "\<lfloor>x\<rfloor> = \<lfloor>y\<rfloor>")
    case False
    with fl have "\<lfloor>x\<rfloor> + 1 \<le> \<lfloor>y\<rfloor>" by simp
    with ux ly show ?thesis by linarith
  next
    case True
    then have "x - of_int \<lfloor>x\<rfloor> \<le> y - of_int \<lfloor>y\<rfloor>" using assms by simp
    then show ?thesis using True by (auto simp: round_half_even_def Let_def)
  qed
qed

lemma round_half_even_neg: "round_half_even (- x) = - round_half_even x"
proof (cases "x = of_int \<lfloor>x\<rfloor>")
  case True
  then obtain n where "x = of_int n" ..
  then show ?thesis by (simp flip: of_int_minus)
next
  case False
  then have c: "\<lceil>x\<rceil> = \<lfloor>x\<rfloor> + 1" by (metis ceiling_altdef)
  have f: "\<lfloor>- x\<rfloor> = - \<lfloor>x\<rfloor> - 1" using c by (simp add: ceiling_def)
  have lt: "of_int \<lfloor>x\<rfloor> < x" using False by (metis less_le of_int_floor_le)
  show ?thesis
    unfolding round_half_even_def Let_def f
    using lt by (auto simp: field_simps)
qed


lemma pow2_of_int: "0 \<le> d \<Longrightarrow> (2::rat) powi d = of_int (2 ^ nat d)"
  by (simp add: power_int_def)

lemma pow2_split: "(2::rat) powi k = 2 powi (k - e) * 2 powi e"
proof -
  have "(2::rat) powi ((k - e) + e) = 2 powi (k - e) * 2 powi e"
    by (rule power_int_add) simp
  then show ?thesis by simp
qed

lemma grid_le:
  assumes "x \<le> 2 powi k" "e \<le> k"
  shows "of_int (round_half_even (x / 2 powi e)) * 2 powi e \<le> (2::rat) powi k"
proof -
  have pos: "(0::rat) < 2 powi e" by simp
  have "x / 2 powi e \<le> 2 powi k / 2 powi e" using assms(1) pos by (simp add: divide_right_mono)
  also have "(2::rat) powi k / 2 powi e = 2 powi (k - e)" using pow2_split[of k e] by simp
  also have "\<dots> = of_int (2 ^ nat (k - e))" using assms(2) by (simp add: pow2_of_int)
  finally have "round_half_even (x / 2 powi e) \<le> round_half_even (of_int (2 ^ nat (k - e)))"
    by (rule round_half_even_mono)
  then have "round_half_even (x / 2 powi e) \<le> 2 ^ nat (k - e)" by simp
  then have "(of_int (round_half_even (x / 2 powi e)) :: rat) \<le> of_int (2 ^ nat (k - e))"
    by (simp only: of_int_le_iff)
  then have "of_int (round_half_even (x / 2 powi e)) * 2 powi e \<le> (of_int (2 ^ nat (k - e)) :: rat) * 2 powi e"
    using pos by (simp add: mult_right_mono)
  also have "(of_int (2 ^ nat (k - e)) :: rat) * 2 powi e = 2 powi k"
    using assms(2) pow2_split[of k e] by (simp add: pow2_of_int)
  finally show ?thesis .
qed

lemma grid_ge:
  assumes "2 powi k \<le> x" "e \<le> k"
  shows "(2::rat) powi k \<le> of_int (round_half_even (x / 2 powi e)) * 2 powi e"
proof -
  have pos: "(0::rat) < 2 powi e" by simp
  have "(2::rat) powi k / 2 powi e \<le> x / 2 powi e" using assms(1) pos by (simp add: divide_right_mono)
  moreover have "(2::rat) powi k / 2 powi e = 2 powi (k - e)" using pow2_split[of k e] by simp
  moreover have "(2::rat) powi (k - e) = of_int (2 ^ nat (k - e))" using assms(2) by (simp add: pow2_of_int)
  ultimately have "of_int (2 ^ nat (k - e)) \<le> x / 2 powi e" by simp
  then have "round_half_even (of_int (2 ^ nat (k - e))) \<le> round_half_even (x / 2 powi e)"
    by (rule round_half_even_mono)
  then have "2 ^ nat (k - e) \<le> round_half_even (x / 2 powi e)" by simp
  then have "(of_int (2 ^ nat (k - e)) :: rat) \<le> of_int (round_half_even (x / 2 powi e))"
    by (simp only: of_int_le_iff)
  then have A: "(of_int (2 ^ nat (k - e)) :: rat) * 2 powi e \<le> of_int (round_half_even (x / 2 powi e)) * 2 powi e"
    using pos by (simp add: mult_right_mono)
  have B: "(of_int (2 ^ nat (k - e)) :: rat) * 2 powi e = 2 powi k"
    using assms(2) pow2_split[of k e] by (simp add: pow2_of_int)
  show ?thesis using A unfolding B .
qed

lemma round53_neg: "round53 (- q) = - round53 q"
  by (simp add: round53_def ulp_exp_def round_half_even_neg)

lemma round53_nonneg:
  assumes "0 \<le> q"
  shows "0 \<le> round53 q"
proof (cases "q = 0")
  case True
  then show ?thesis by (simp add: round53_def)
next
  case False
  have "(0::rat) \<le> q / 2 powi ulp_exp q" using assms by simp
  then have "round_half_even (of_int 0) \<le> round_half_even (q / 2 powi ulp_exp q)"
    by (intro round_half_even_mono) simp
  then have "0 \<le> round_half_even (q / 2 powi ulp_exp q)" by simp
  then show ?thesis using False by (simp add: round53_def)
qed

lemma round53_mono_pos:
  assumes "0 < x" "x \<le> y"
  shows "round53 x \<le> round53 y"
proof -
  have ypos: "0 < y" using assms by simp
  have il: "ilog2 \<bar>x\<bar> \<le> ilog2 \<bar>y\<bar>" using assms ilog2_mono[of x y] by simp
  then have ee: "ulp_exp x \<le> ulp_exp y" by (simp add: ulp_exp_def)
  have rx: "round53 x = of_int (round_half_even (x / 2 powi ulp_exp x)) * 2 powi ulp_exp x"
    using assms(1) by (simp add: round53_def)
  have ry: "round53 y = of_int (round_half_even (y / 2 powi ulp_exp y)) * 2 powi ulp_exp y"
    using ypos by (simp add: round53_def)
  show ?thesis
  proof (cases "ulp_exp x = ulp_exp y")
    case True
    have pos: "(0::rat) < 2 powi ulp_exp y" by simp
    have "x / 2 powi ulp_exp y \<le> y / 2 powi ulp_exp y"
      using assms(2) pos by (simp add: divide_right_mono)
    then have "round_half_even (x / 2 powi ulp_exp y) \<le> round_half_even (y / 2 powi ulp_exp y)"
      by (rule round_half_even_mono)
    then have "(of_int (round_half_even (x / 2 powi ulp_exp y)) :: rat)
                 \<le> of_int (round_half_even (y / 2 powi ulp_exp y))"
      by (simp only: of_int_le_iff)
    then show ?thesis unfolding rx ry True using pos by (simp add: mult_right_mono)
  next
    case False
    with ee have lt: "ulp_exp x < ulp_exp y" by simp
    define k where "k = ilog2 y"
    have ey: "ulp_exp y = k - 52" and kx: "ilog2 x < k"
      using lt assms ypos unfolding ulp_exp_def k_def by (auto simp: max_def split: if_splits)
    have "x < 2 powi (ilog2 x + 1)" using ilog2_bounds(2)[OF assms(1)] .
    also have "(2::rat) powi (ilog2 x + 1) \<le> 2 powi k"
      using kx by (intro power_int_increasing) auto
    finally have xk: "x \<le> 2 powi k" by simp
    have ky: "2 powi k \<le> y" unfolding k_def using ilog2_bounds(1)[OF ypos] .
    have e1: "ulp_exp x \<le> k" using lt ey by simp
    have e2: "ulp_exp y \<le> k" using ey by simp
    have "round53 x \<le> 2 powi k" unfolding rx using xk e1 by (rule grid_le)
    also have "2 powi k \<le> round53 y" unfolding ry using ky e2 by (rule grid_ge)
    finally show ?thesis .
  qed
qed

lemma round53_mono:
  assumes "x \<le> y"
  shows "round53 x \<le> round53 y"
proof -
  consider "0 < x" | "x \<le> 0" "0 \<le> y" | "y < 0" by linarith
  then show ?thesis
  proof cases
    case 1
    then show ?thesis using assms by (rule round53_mono_pos)
  next
    case 2
    have "0 \<le> round53 (- x)" using 2(1) by (intro round53_nonneg) simp
    then have "round53 x \<le> 0" by (simp add: round53_neg)
    also have "0 \<le> round53 y" using 2(2) by (rule round53_nonneg)
    finally show ?thesis .
  next
    case 3
    then have "0 < - y" "- y \<le> - x" using assms by auto
    then have "round53 (- y) \<le> round53 (- x)" by (rule round53_mono_pos)
    then show ?thesis by (simp add: round53_neg)
  qed
qed

lemma round53_grid:
  assumes "q = of_int m * 2 powi e" "ulp_exp q \<le> e"
  shows "round53 q = q"
proof (cases "q = 0")
  case True
  then show ?thesis by (simp add: round53_def)
next
  case False
  define u where "u = ulp_exp q"
  have "q / 2 powi u = of_int m * (2 powi e / 2 powi u)" using assms(1) by simp
  also have "(2::rat) powi e / 2 powi u = 2 powi (e - u)" using pow2_split[of e u] by simp
  also have "\<dots> = of_int (2 ^ nat (e - u))" using assms(2) unfolding u_def by (simp add: pow2_of_int)
  finally have "q / 2 powi u = of_int (m * 2 ^ nat (e - u))" by simp
  then have "round_half_even (q / 2 powi u) = m * 2 ^ nat (e - u)"
    by (simp only: round_half_even_of_int)
  then have "of_int (round_half_even (q / 2 powi u)) * 2 powi u
               = (of_int m :: rat) * (of_int (2 ^ nat (e - u)) * 2 powi u)"
    by simp
  also have "(of_int (2 ^ nat (e - u)) :: rat) * 2 powi u = 2 powi e"
    using assms(2) pow2_split[of e u] unfolding u_def by (simp add: pow2_of_int)
  finally show ?thesis using False assms(1) unfolding u_def by (simp add: round53_def)
qed

lemma ilog2_less:
  assumes "0 < q" "q < 2 powi k"
  shows "ilog2 q < k"
proof -
  have "(2::rat) powi ilog2 q < 2 powi k" using ilog2_bounds(1)[OF assms(1)] assms(2) by simp
  then show ?thesis by (rule pow2_less_imp_less)
qed

lemma round53_of_nat:
  assumes "n \<le> 2 ^ 53"
  shows "round53 (of_nat n) = of_nat n"
proof (cases "n = 2 ^ 53")
  case True
  have "ilog2 9007199254740992 = 53"
    by (rule ilog2_unique) (simp_all add: power_int_def)
  then have u: "ulp_exp 9007199254740992 = 1" by (simp add: ulp_exp_def)
  have "round53 9007199254740992 = 9007199254740992"
    by (rule round53_grid[where m = 4503599627370496 and e = 1]) (simp_all add: u)
  then show ?thesis using True by simp
next
  case False
  with assms have lt: "n < 2 ^ 53" by simp
  show ?thesis
  proof (cases "n = 0")
    case True
    then show ?thesis by (simp add: round53_def)
  next
    case False
    then have pos: "(0::rat) < of_nat n" by simp
    have "(of_nat n :: rat) < of_nat (2 ^ 53)" using lt by (simp only: of_nat_less_iff)
    then have "(of_nat n :: rat) < 2 powi 53" by simp
    then have "ilog2 (of_nat n) < 53" using pos by (intro ilog2_less) auto
    then have u: "ulp_exp (of_nat n) \<le> 0" by (simp add: ulp_exp_def)
    show ?thesis
      by (rule round53_grid[where m = "int n" and e = 0]) (simp_all add: u)
  qed
qed

lemma pow2_1024_gt: "(2::rat) ^ 53 < 2 powi 1024"
  by (simp add: power_int_def)

lemma rnd_small:
  assumes "\<bar>round53 q\<bar> \<le> 2 ^ 53"
  shows "rnd q = Fin (round53 q)"
proof -
  have "\<bar>round53 q\<bar> < 2 powi 1024" using assms pow2_1024_gt by linarith
  then show ?thesis by (simp add: rnd_def Let_def)
qed

lemma rnd_of_nat:
  assumes "n \<le> 2 ^ 53"
  shows "rnd (of_nat n) = Fin (of_nat n)"
proof -
  have "(of_nat n :: rat) \<le> of_nat (2 ^ 53)" using assms by (simp only: of_nat_le_iff)
  then have "\<bar>round53 (of_nat n)\<bar> \<le> 2 ^ 53" by (simp add: round53_of_nat[OF assms])
  then show ?thesis using rnd_small[of "of_nat n"] by (simp add: round53_of_nat[OF assms])
qed

lemma js_add_one:
  assumes "n < 2 ^ 53"
  shows "js_add (Fin (of_nat n)) (Fin 1) = Fin (of_nat (Suc n))"
proof -
  have "Suc n \<le> 2 ^ 53" using assms by simp
  from rnd_of_nat[OF this] show ?thesis by (simp add: add.commute)
qed

lemma rnd_between:
  assumes "of_nat lo \<le> q" "q \<le> of_nat hi" "hi \<le> 2 ^ 53"
  shows "\<exists>r. rnd q = Fin r \<and> of_nat lo \<le> r \<and> r \<le> of_nat hi"
proof -
  have lohi: "(of_nat lo :: rat) \<le> of_nat hi" using assms by linarith
  then have "lo \<le> hi" by (simp only: of_nat_le_iff)
  with assms(3) have lo53: "lo \<le> 2 ^ 53" by simp
  have a: "of_nat lo \<le> round53 q"
    using round53_mono[OF assms(1)] by (simp add: round53_of_nat[OF lo53])
  have b: "round53 q \<le> of_nat hi"
    using round53_mono[OF assms(2)] by (simp add: round53_of_nat[OF assms(3)])
  have "(of_nat hi :: rat) \<le> of_nat (2 ^ 53)" using assms(3) by (simp only: of_nat_le_iff)
  then have c: "(of_nat hi :: rat) \<le> 2 ^ 53" by simp
  have "(0::rat) \<le> of_nat lo" by simp
  then have "\<bar>round53 q\<bar> \<le> 2 ^ 53" using a b c by linarith
  then have "rnd q = Fin (round53 q)" by (rule rnd_small)
  with a b show ?thesis by blast
qed

section \<open>The loops and their unrollings\<close>

lemma gif_loop_unroll:
  assumes "N \<le> 2 ^ 53" "k \<le> N"
  shows "gif_loop capture (Fin (of_nat N)) fd (Fin (of_nat k)) frames st
           = Some (gif_frames capture (Fin (of_nat N)) fd [k..<N] frames st)"
  using assms(2)
proof (induction "N - k" arbitrary: k frames st)
  case 0
  then have "k = N" by simp
  then show ?case by (subst gif_loop.simps) simp
next
  case (Suc d)
  then have lt: "k < N" and d: "d = N - Suc k" and le: "Suc k \<le> N" by simp_all
  have k53: "k < 2 ^ 53" using lt assms(1) by simp
  have upt: "[k..<N] = k # [Suc k..<N]" using lt by (simp add: upt_conv_Cons)
  show ?case
    by (subst gif_loop.simps)
       (simp add: lt upt js_add_one[OF k53] Suc.hyps(1)[OF d le]
          del: js_add.simps js_mul.simps js_div.simps Math_round.simps of_nat_Suc
          split: prod.splits sum.splits)
qed

lemma video_loop_unroll:
  assumes "N \<le> 2 ^ 53" "k \<le> N"
  shows "video_loop capture pace (Fin (of_nat N)) fd (Fin (of_nat k)) st
           = Some (video_frames capture pace (Fin (of_nat N)) fd [k..<N] st)"
  using assms(2)
proof (induction "N - k" arbitrary: k st)
  case 0
  then have "k = N" by simp
  then show ?case by (subst video_loop.simps) simp
next
  case (Suc d)
  then have lt: "k < N" and d: "d = N - Suc k" and le: "Suc k \<le> N" by simp_all
  have k53: "k < 2 ^ 53" using lt assms(1) by simp
  have upt: "[k..<N] = k # [Suc k..<N]" using lt by (simp add: upt_conv_Cons)
  show ?case
    by (subst video_loop.simps)
       (simp add: lt upt js_add_one[OF k53] Suc.hyps(1)[OF d le]
          del: js_add.simps js_mul.simps js_div.simps Math_round.simps of_nat_Suc
          split: prod.splits sum.splits)
qed

section \<open>One frame\<close>

lemmas state_defs = log_event_def onProgress_def set_innerHTML_def ensureContainer_def
  set_live_svg_def querySelector_svg_def canvas_do_def draw_frame_def toDataURL_def

lemma querySelector_after_innerHTML:
  "querySelector_svg (set_innerHTML env s st) = (if has_svg env s then Some (fresh_svg s) else None)"
  by (simp add: querySelector_svg_def set_innerHTML_def)

lemma draw_frame_trace:
  "trace (draw_frame env img cfg st)
     = trace st @ map Canvas (frame_ops cfg img (canvas_width st) (canvas_height st))"
  by (simp add: draw_frame_def canvas_do_def log_event_def frame_ops_def Let_def
           split: option.splits)

lemma draw_frame_dims:
  "canvas_width (draw_frame env img cfg st) = canvas_width st"
  "canvas_height (draw_frame env img cfg st) = canvas_height st"
  by (simp_all add: draw_frame_def canvas_do_def log_event_def Let_def split: option.splits)

lemma captureFrame_trace:
  "trace (snd (captureFrame env svg t cfg st))
     = trace st @ frame_events env svg t cfg (canvas_width st) (canvas_height st)"
  unfolding captureFrame_def Let_def querySelector_after_innerHTML
  by (simp add: frame_events_def seeked_markup_def draw_frame_trace draw_frame_dims
        set_innerHTML_def ensureContainer_def set_live_svg_def log_event_def
      split: option.splits prod.splits)

lemma captureFrame_dims:
  "canvas_width (snd (captureFrame env svg t cfg st)) = canvas_width st"
  "canvas_height (snd (captureFrame env svg t cfg st)) = canvas_height st"
  unfolding captureFrame_def Let_def querySelector_after_innerHTML
  by (simp_all add: draw_frame_dims set_innerHTML_def ensureContainer_def set_live_svg_def
        log_event_def
      split: option.splits prod.splits)

lemma captureFrame_fst:
  "fst (captureFrame env svg t cfg st)
     = (if frame_ok env svg t then Inr (toDataURL (snd (captureFrame env svg t cfg st)))
        else Inl (frame_error env svg))"
  unfolding captureFrame_def Let_def querySelector_after_innerHTML
  by (simp add: frame_ok_def frame_error_def seeked_markup_def toDataURL_def draw_frame_dims
        set_innerHTML_def ensureContainer_def set_live_svg_def log_event_def
      split: option.splits prod.splits)

lemma captureFrame_container:
  "liveContainer (snd (captureFrame env svg t cfg st))
     = Some (Container (if has_svg env svg then [] else svg) None)"
  unfolding captureFrame_def Let_def querySelector_after_innerHTML
  by (simp add: has_svg_def set_innerHTML_def ensureContainer_def set_live_svg_def log_event_def
      split: option.splits prod.splits)


lemma capture_times_append [simp]:
  "capture_times (xs @ ys) = capture_times xs @ capture_times ys"
  by (induction xs rule: capture_times.induct) simp_all

lemma progress_values_append [simp]:
  "progress_values (xs @ ys) = progress_values xs @ progress_values ys"
  by (induction xs rule: progress_values.induct) simp_all

lemma canvas_ops_append [simp]:
  "canvas_ops (xs @ ys) = canvas_ops xs @ canvas_ops ys"
  by (induction xs rule: canvas_ops.induct) simp_all

lemma blob_texts_append [simp]:
  "blob_texts (xs @ ys) = blob_texts xs @ blob_texts ys"
  by (induction xs rule: blob_texts.induct) simp_all

lemma projections_of_canvas [simp]:
  "capture_times (map Canvas ops) = []"
  "progress_values (map Canvas ops) = []"
  "canvas_ops (map Canvas ops) = ops"
  "blob_texts (map Canvas ops) = []"
  by (induction ops) simp_all

lemma progress_values_map_Progress [simp]:
  "progress_values (map Progress vs) = vs"
  "capture_times (map Progress vs) = []"
  "canvas_ops (map Progress vs) = []"
  by (induction vs) simp_all

lemma frame_events_capture_times [simp]:
  "capture_times (frame_events env svg t cfg w h) = [t]"
  by (simp add: frame_events_def)

lemma frame_events_progress [simp]:
  "progress_values (frame_events env svg t cfg w h) = []"
  by (simp add: frame_events_def)

lemma frame_events_canvas_ops:
  "canvas_ops (frame_events env svg t cfg w h)
     = (if frame_ok env svg t then frame_ops cfg (seeked_markup env svg t) w h else [])"
  by (simp add: frame_events_def frame_ok_def)

lemma captureFrame_cases:
  obtains (ok) st' where "frame_ok env svg t"
      "captureFrame env svg t cfg st = (Inr (toDataURL st'), st')"
      "trace st' = trace st @ frame_events env svg t cfg (canvas_width st) (canvas_height st)"
      "canvas_width st' = canvas_width st" "canvas_height st' = canvas_height st"
    | (fail) st' where "\<not> frame_ok env svg t"
      "captureFrame env svg t cfg st = (Inl (frame_error env svg), st')"
      "trace st' = trace st @ frame_events env svg t cfg (canvas_width st) (canvas_height st)"
      "canvas_width st' = canvas_width st" "canvas_height st' = canvas_height st"
proof -
  obtain res st' where cf: "captureFrame env svg t cfg st = (res, st')" by force
  have tr: "trace st' = trace st @ frame_events env svg t cfg (canvas_width st) (canvas_height st)"
    using captureFrame_trace[of env svg t cfg st] unfolding cf snd_conv .
  have w: "canvas_width st' = canvas_width st" and h: "canvas_height st' = canvas_height st"
    using captureFrame_dims[of env svg t cfg st] unfolding cf snd_conv by blast+
  have r: "res = (if frame_ok env svg t then Inr (toDataURL st') else Inl (frame_error env svg))"
    using captureFrame_fst[of env svg t cfg st] unfolding cf fst_conv snd_conv .
  show thesis
  proof (cases "frame_ok env svg t")
    case True
    then have "res = Inr (toDataURL st')" using r by simp
    then have "captureFrame env svg t cfg st = (Inr (toDataURL st'), st')" using cf by simp
    with True show ?thesis using tr w h by (rule ok)
  next
    case False
    then have "res = Inl (frame_error env svg)" using r by simp
    then have "captureFrame env svg t cfg st = (Inl (frame_error env svg), st')" using cf by simp
    with False show ?thesis using tr w h by (rule fail)
  qed
qed

lemma gif_frames_ok:
  assumes "\<forall>k\<in>set ks. frame_ok env svg (js_mul (Fin (of_nat k)) fd)"
  shows "\<exists>frames' evs st'.
           gif_frames (\<lambda>time. captureFrame env svg time cfg) N fd ks frames st = (Inr frames', st')
         \<and> length frames' = length frames + length ks
         \<and> trace st' = trace st @ evs
         \<and> canvas_width st' = canvas_width st \<and> canvas_height st' = canvas_height st
         \<and> capture_times evs = map (\<lambda>k. js_mul (Fin (of_nat k)) fd) ks
         \<and> progress_values evs
             = map (\<lambda>k. Math_round (js_mul (js_div (Fin (of_nat k)) N) (Fin 60))) ks"
  using assms
proof (induction ks arbitrary: frames st)
  case Nil
  then show ?case by simp
next
  case (Cons k ks)
  let ?t = "js_mul (Fin (of_nat k)) fd"
  let ?v = "Math_round (js_mul (js_div (Fin (of_nat k)) N) (Fin 60))"
  have okk: "frame_ok env svg ?t" using Cons.prems by simp
  have rest: "\<forall>k\<in>set ks. frame_ok env svg (js_mul (Fin (of_nat k)) fd)" using Cons.prems by simp
  show ?case
  proof (cases rule: captureFrame_cases[of env svg ?t cfg st])
    case (ok st1)
    from Cons.IH[OF rest, of "frames @ [toDataURL st1]" "onProgress ?v st1"]
    obtain frames' evs st' where
      g: "gif_frames (\<lambda>time. captureFrame env svg time cfg) N fd ks (frames @ [toDataURL st1])
            (onProgress ?v st1) = (Inr frames', st')"
      and l: "length frames' = length (frames @ [toDataURL st1]) + length ks"
      and tr: "trace st' = trace (onProgress ?v st1) @ evs"
      and w: "canvas_width st' = canvas_width (onProgress ?v st1)"
      and h: "canvas_height st' = canvas_height (onProgress ?v st1)"
      and ct: "capture_times evs = map (\<lambda>k. js_mul (Fin (of_nat k)) fd) ks"
      and pv: "progress_values evs
                 = map (\<lambda>k. Math_round (js_mul (js_div (Fin (of_nat k)) N) (Fin 60))) ks"
      by blast
    let ?evs = "frame_events env svg ?t cfg (canvas_width st) (canvas_height st) @ [Progress ?v] @ evs"
    have "gif_frames (\<lambda>time. captureFrame env svg time cfg) N fd (k # ks) frames st = (Inr frames', st')"
      using ok(2) g by simp
    moreover have "length frames' = length frames + length (k # ks)" using l by simp
    moreover have "trace st' = trace st @ ?evs"
      using tr ok(3) by (simp add: onProgress_def log_event_def)
    moreover have "canvas_width st' = canvas_width st" "canvas_height st' = canvas_height st"
      using w h ok(4,5) by (simp_all add: onProgress_def log_event_def)
    moreover have "capture_times ?evs = map (\<lambda>k. js_mul (Fin (of_nat k)) fd) (k # ks)"
      using ct by simp
    moreover have "progress_values ?evs
                 = map (\<lambda>k. Math_round (js_mul (js_div (Fin (of_nat k)) N) (Fin 60))) (k # ks)"
      using pv by simp
    ultimately show ?thesis by blast
  next
    case (fail st1)
    with okk show ?thesis by simp
  qed
qed

lemma gif_frames_fail:
  assumes "\<forall>k\<in>set ks. frame_ok env svg (js_mul (Fin (of_nat k)) fd)"
    and "\<not> frame_ok env svg (js_mul (Fin (of_nat j)) fd)"
  shows "\<exists>evs st'.
           gif_frames (\<lambda>time. captureFrame env svg time cfg) N fd (ks @ j # js) frames st
             = (Inl (frame_error env svg), st')
         \<and> trace st' = trace st @ evs
         \<and> capture_times evs = map (\<lambda>k. js_mul (Fin (of_nat k)) fd) (ks @ [j])
         \<and> progress_values evs
             = map (\<lambda>k. Math_round (js_mul (js_div (Fin (of_nat k)) N) (Fin 60))) ks"
  using assms(1)
proof (induction ks arbitrary: frames st)
  case Nil
  let ?t = "js_mul (Fin (of_nat j)) fd"
  show ?case
  proof (cases rule: captureFrame_cases[of env svg ?t cfg st])
    case (ok st1)
    with assms(2) show ?thesis by simp
  next
    case (fail st1)
    let ?evs = "frame_events env svg ?t cfg (canvas_width st) (canvas_height st)"
    have "gif_frames (\<lambda>time. captureFrame env svg time cfg) N fd ([] @ j # js) frames st
            = (Inl (frame_error env svg), st1)"
      using fail(2) by simp
    moreover have "trace st1 = trace st @ ?evs" using fail(3) .
    moreover have "capture_times ?evs = map (\<lambda>k. js_mul (Fin (of_nat k)) fd) ([] @ [j])" by simp
    moreover have "progress_values ?evs
                     = map (\<lambda>k. Math_round (js_mul (js_div (Fin (of_nat k)) N) (Fin 60))) []" by simp
    ultimately show ?thesis by blast
  qed
next
  case (Cons k ks)
  let ?t = "js_mul (Fin (of_nat k)) fd"
  let ?v = "Math_round (js_mul (js_div (Fin (of_nat k)) N) (Fin 60))"
  have okk: "frame_ok env svg ?t" using Cons.prems by simp
  have rest: "\<forall>k\<in>set ks. frame_ok env svg (js_mul (Fin (of_nat k)) fd)" using Cons.prems by simp
  show ?case
  proof (cases rule: captureFrame_cases[of env svg ?t cfg st])
    case (ok st1)
    from Cons.IH[OF rest, of "frames @ [toDataURL st1]" "onProgress ?v st1"]
    obtain evs st' where
      g: "gif_frames (\<lambda>time. captureFrame env svg time cfg) N fd (ks @ j # js)
            (frames @ [toDataURL st1]) (onProgress ?v st1) = (Inl (frame_error env svg), st')"
      and tr: "trace st' = trace (onProgress ?v st1) @ evs"
      and ct: "capture_times evs = map (\<lambda>k. js_mul (Fin (of_nat k)) fd) (ks @ [j])"
      and pv: "progress_values evs
                 = map (\<lambda>k. Math_round (js_mul (js_div (Fin (of_nat k)) N) (Fin 60))) ks"
      by blast
    let ?evs = "frame_events env svg ?t cfg (canvas_width st) (canvas_height st) @ [Progress ?v] @ evs"
    have "gif_frames (\<lambda>time. captureFrame env svg time cfg) N fd ((k # ks) @ j # js) frames st
            = (Inl (frame_error env svg), st')"
      using ok(2) g by simp
    moreover have "trace st' = trace st @ ?evs"
      using tr ok(3) by (simp add: onProgress_def log_event_def)
    moreover have "capture_times ?evs = map (\<lambda>k. js_mul (Fin (of_nat k)) fd) ((k # ks) @ [j])"
      using ct by simp
    moreover have "progress_values ?evs
                 = map (\<lambda>k. Math_round (js_mul (js_div (Fin (of_nat k)) N) (Fin 60))) (k # ks)"
      using pv by simp
    ultimately show ?thesis by blast
  next
    case (fail st1)
    with okk show ?thesis by simp
  qed
qed


lemma projections_of_Wait [simp]:
  "capture_times (Wait p # es) = capture_times es"
  "progress_values (Wait p # es) = progress_values es"
  by simp_all

lemma video_frames_ok:
  assumes "\<forall>k\<in>set ks. frame_ok env svg (js_mul (Fin (of_nat k)) fd)"
  shows "\<exists>evs st'.
           video_frames (\<lambda>time. captureFrame env svg time cfg) pace N fd ks st = (Inr (), st')
         \<and> trace st' = trace st @ evs
         \<and> canvas_width st' = canvas_width st \<and> canvas_height st' = canvas_height st
         \<and> capture_times evs = map (\<lambda>k. js_mul (Fin (of_nat k)) fd) ks
         \<and> progress_values evs
             = map (\<lambda>k. Math_round (js_mul (js_div (Fin (of_nat k)) N) (Fin 100))) ks"
  using assms
proof (induction ks arbitrary: st)
  case Nil
  then show ?case by simp
next
  case (Cons k ks)
  let ?t = "js_mul (Fin (of_nat k)) fd"
  let ?v = "Math_round (js_mul (js_div (Fin (of_nat k)) N) (Fin 100))"
  have okk: "frame_ok env svg ?t" using Cons.prems by simp
  have rest: "\<forall>k\<in>set ks. frame_ok env svg (js_mul (Fin (of_nat k)) fd)" using Cons.prems by simp
  show ?case
  proof (cases rule: captureFrame_cases[of env svg ?t cfg st])
    case (ok st1)
    from Cons.IH[OF rest, of "onProgress ?v (log_event (Wait pace) st1)"]
    obtain evs st' where
      g: "video_frames (\<lambda>time. captureFrame env svg time cfg) pace N fd ks
            (onProgress ?v (log_event (Wait pace) st1)) = (Inr (), st')"
      and tr: "trace st' = trace (onProgress ?v (log_event (Wait pace) st1)) @ evs"
      and w: "canvas_width st' = canvas_width (onProgress ?v (log_event (Wait pace) st1))"
      and h: "canvas_height st' = canvas_height (onProgress ?v (log_event (Wait pace) st1))"
      and ct: "capture_times evs = map (\<lambda>k. js_mul (Fin (of_nat k)) fd) ks"
      and pv: "progress_values evs
                 = map (\<lambda>k. Math_round (js_mul (js_div (Fin (of_nat k)) N) (Fin 100))) ks"
      by blast
    let ?evs = "frame_events env svg ?t cfg (canvas_width st) (canvas_height st)
                  @ [Wait pace, Progress ?v] @ evs"
    have "video_frames (\<lambda>time. captureFrame env svg time cfg) pace N fd (k # ks) st = (Inr (), st')"
      using ok(2) g by simp
    moreover have "trace st' = trace st @ ?evs"
      using tr ok(3) by (simp add: onProgress_def log_event_def)
    moreover have "canvas_width st' = canvas_width st" "canvas_height st' = canvas_height st"
      using w h ok(4,5) by (simp_all add: onProgress_def log_event_def)
    moreover have "capture_times ?evs = map (\<lambda>k. js_mul (Fin (of_nat k)) fd) (k # ks)"
      using ct by simp
    moreover have "progress_values ?evs
                 = map (\<lambda>k. Math_round (js_mul (js_div (Fin (of_nat k)) N) (Fin 100))) (k # ks)"
      using pv by simp
    ultimately show ?thesis by blast
  next
    case (fail st1)
    with okk show ?thesis by simp
  qed
qed

lemma video_frames_fail:
  assumes "\<forall>k\<in>set ks. frame_ok env svg (js_mul (Fin (of_nat k)) fd)"
    and "\<not> frame_ok env svg (js_mul (Fin (of_nat j)) fd)"
  shows "\<exists>evs st'.
           video_frames (\<lambda>time. captureFrame env svg time cfg) pace N fd (ks @ j # js) st
             = (Inl (frame_error env svg), st')
         \<and> trace st' = trace st @ evs
         \<and> capture_times evs = map (\<lambda>k. js_mul (Fin (of_nat k)) fd) (ks @ [j])
         \<and> progress_values evs
             = map (\<lambda>k. Math_round (js_mul (js_div (Fin (of_nat k)) N) (Fin 100))) ks"
  using assms(1)
proof (induction ks arbitrary: st)
  case Nil
  let ?t = "js_mul (Fin (of_nat j)) fd"
  show ?case
  proof (cases rule: captureFrame_cases[of env svg ?t cfg st])
    case (ok st1)
    with assms(2) show ?thesis by simp
  next
    case (fail st1)
    let ?evs = "frame_events env svg ?t cfg (canvas_width st) (canvas_height st)"
    have "video_frames (\<lambda>time. captureFrame env svg time cfg) pace N fd ([] @ j # js) st
            = (Inl (frame_error env svg), st1)"
      using fail(2) by simp
    moreover have "trace st1 = trace st @ ?evs" using fail(3) .
    moreover have "capture_times ?evs = map (\<lambda>k. js_mul (Fin (of_nat k)) fd) ([] @ [j])" by simp
    moreover have "progress_values ?evs
                     = map (\<lambda>k. Math_round (js_mul (js_div (Fin (of_nat k)) N) (Fin 100))) []" by simp
    ultimately show ?thesis by blast
  qed
next
  case (Cons k ks)
  let ?t = "js_mul (Fin (of_nat k)) fd"
  let ?v = "Math_round (js_mul (js_div (Fin (of_nat k)) N) (Fin 100))"
  have okk: "frame_ok env svg ?t" using Cons.prems by simp
  have rest: "\<forall>k\<in>set ks. frame_ok env svg (js_mul (Fin (of_nat k)) fd)" using Cons.prems by simp
  show ?case
  proof (cases rule: captureFrame_cases[of env svg ?t cfg st])
    case (ok st1)
    from Cons.IH[OF rest, of "onProgress ?v (log_event (Wait pace) st1)"]
    obtain evs st' where
      g: "video_frames (\<lambda>time. captureFrame env svg time cfg) pace N fd (ks @ j # js)
            (onProgress ?v (log_event (Wait pace) st1)) = (Inl (frame_error env svg), st')"
      and tr: "trace st' = trace (onProgress ?v (log_event (Wait pace) st1)) @ evs"
      and ct: "capture_times evs = map (\<lambda>k. js_mul (Fin (of_nat k)) fd) (ks @ [j])"
      and pv: "progress_values evs
                 = map (\<lambda>k. Math_round (js_mul (js_div (Fin (of_nat k)) N) (Fin 100))) ks"
      by blast
    let ?evs = "frame_events env svg ?t cfg (canvas_width st) (canvas_height st)
                  @ [Wait pace, Progress ?v] @ evs"
    have "video_frames (\<lambda>time. captureFrame env svg time cfg) pace N fd ((k # ks) @ j # js) st
            = (Inl (frame_error env svg), st')"
      using ok(2) g by simp
    moreover have "trace st' = trace st @ ?evs"
      using tr ok(3) by (simp add: onProgress_def log_event_def)
    moreover have "capture_times ?evs = map (\<lambda>k. js_mul (Fin (of_nat k)) fd) ((k # ks) @ [j])"
      using ct by simp
    moreover have "progress_values ?evs
                 = map (\<lambda>k. Math_round (js_mul (js_div (Fin (of_nat k)) N) (Fin 100))) (k # ks)"
      using pv by simp
    ultimately show ?thesis by blast
  next
    case (fail st1)
    with okk show ?thesis by simp
  qed
qed

lemma total_frames:
  assumes "0 < f" "0 < d" "round53 (d * f) \<le> 2 ^ 53"
  shows "Math_ceil (js_mul (Fin d) (Fin f)) = Fin (of_nat (nat \<lceil>round53 (d * f)\<rceil>))"
    and "nat \<lceil>round53 (d * f)\<rceil> \<le> 2 ^ 53"
proof -
  have nn: "0 \<le> round53 (d * f)" using assms(1,2) by (intro round53_nonneg) simp
  then have "\<bar>round53 (d * f)\<bar> \<le> 2 ^ 53" using assms(3) by simp
  then have r: "rnd (d * f) = Fin (round53 (d * f))" by (rule rnd_small)
  have c0: "0 \<le> \<lceil>round53 (d * f)\<rceil>" using nn by simp
  then have "(of_int \<lceil>round53 (d * f)\<rceil> :: rat) = of_nat (nat \<lceil>round53 (d * f)\<rceil>)" by simp
  then show "Math_ceil (js_mul (Fin d) (Fin f)) = Fin (of_nat (nat \<lceil>round53 (d * f)\<rceil>))"
    using r by simp
  have "\<lceil>round53 (d * f)\<rceil> \<le> 2 ^ 53" using assms(3) by simp
  then show "nat \<lceil>round53 (d * f)\<rceil> \<le> 2 ^ 53" by (simp add: nat_le_iff)
qed

section \<open>The metadata hint (claim C10)\<close>

lemma or_default_cases:
  "or_default result key dflt = dflt \<or> truthy (or_default result key dflt)"
  by (simp add: or_default_def split: json.splits option.splits)

lemma or_default_truthy:
  "truthy dflt \<Longrightarrow> truthy (or_default result key dflt)"
  by (simp add: or_default_def split: json.splits option.splits)

text \<open>
  C10, as amended. Whatever the metadata service replies (a failed request, a text
  that does not parse, any parsed value), \<open>analyzeSvg\<close> returns a hint: a failure gives
  the defaults; each field of a parsed object is returned when it is truthy and
  replaced by its default when it is falsy or missing, so a reported width, height or
  duration of 0 becomes 500, 500 or 5. Hence every field is its default or truthy, and
  no numeric field is ever 0. (A truthy value is returned as it is, a negative number
  included.)
\<close>

theorem analyzeSvg_defaults:
  "(analyzeSvg_try gen parse code = Inl e \<longrightarrow> analyzeSvg gen parse code = fallback_analysis)
   \<and> (analyzeSvg_try gen parse code = Inr a \<longrightarrow> analyzeSvg gen parse code = a)
   \<and> (gen (take 5000 code) = ResponseText (Some t) \<and> t \<noteq> [] \<and> parse t = Some (JObj kvs) \<longrightarrow>
        width (analyzeSvg gen parse code)
          = (case map_of kvs ''width'' of
               Some v \<Rightarrow> if truthy v then v else JNum (Fin 500) | None \<Rightarrow> JNum (Fin 500))
      \<and> height (analyzeSvg gen parse code)
          = (case map_of kvs ''height'' of
               Some v \<Rightarrow> if truthy v then v else JNum (Fin 500) | None \<Rightarrow> JNum (Fin 500))
      \<and> suggestedDuration (analyzeSvg gen parse code)
          = (case map_of kvs ''suggestedDuration'' of
               Some v \<Rightarrow> if truthy v then v else JNum (Fin 5) | None \<Rightarrow> JNum (Fin 5))
      \<and> hasSmil (analyzeSvg gen parse code)
          = (case map_of kvs ''hasSmil'' of
               Some v \<Rightarrow> if truthy v then v else JBool False | None \<Rightarrow> JBool False)
      \<and> hasCssAnimation (analyzeSvg gen parse code)
          = (case map_of kvs ''hasCssAnimation'' of
               Some v \<Rightarrow> if truthy v then v else JBool False | None \<Rightarrow> JBool False)
      \<and> viewBox (analyzeSvg gen parse code)
          = (case map_of kvs ''viewBox'' of
               Some v \<Rightarrow> if truthy v then v else JNull | None \<Rightarrow> JNull))
   \<and> (hasSmil (analyzeSvg gen parse code) = JBool False \<or> truthy (hasSmil (analyzeSvg gen parse code)))
   \<and> (hasCssAnimation (analyzeSvg gen parse code) = JBool False
        \<or> truthy (hasCssAnimation (analyzeSvg gen parse code)))
   \<and> (viewBox (analyzeSvg gen parse code) = JNull \<or> truthy (viewBox (analyzeSvg gen parse code)))
   \<and> truthy (width (analyzeSvg gen parse code))
   \<and> truthy (height (analyzeSvg gen parse code))
   \<and> truthy (suggestedDuration (analyzeSvg gen parse code))
   \<and> width (analyzeSvg gen parse code) \<noteq> JNum (Fin 0)
   \<and> height (analyzeSvg gen parse code) \<noteq> JNum (Fin 0)
   \<and> suggestedDuration (analyzeSvg gen parse code) \<noteq> JNum (Fin 0)"
proof -
  let ?a = "analyzeSvg gen parse code"
  have fields:
    "?a = fallback_analysis \<or>
     (\<exists>result. ?a =
        \<lparr>hasSmil = or_default result ''hasSmil'' (JBool False),
         hasCssAnimation = or_default result ''hasCssAnimation'' (JBool False),
         viewBox = or_default result ''viewBox'' JNull,
         width = or_default result ''width'' (JNum (Fin 500)),
         height = or_default result ''height'' (JNum (Fin 500)),
         suggestedDuration = or_default result ''suggestedDuration'' (JNum (Fin 5))\<rparr>)"
    by (auto simp: analyzeSvg_def analyzeSvg_try_def split: gemini_reply.splits option.splits json.splits)
  have tw: "truthy (width ?a)" and th: "truthy (height ?a)" and td: "truthy (suggestedDuration ?a)"
    using fields by (auto simp: fallback_analysis_def or_default_truthy)
  have ds: "hasSmil ?a = JBool False \<or> truthy (hasSmil ?a)"
    and dc: "hasCssAnimation ?a = JBool False \<or> truthy (hasCssAnimation ?a)"
    and dv: "viewBox ?a = JNull \<or> truthy (viewBox ?a)"
    using fields by (elim disjE exE; simp add: fallback_analysis_def or_default_cases)+
  have nz: "width ?a \<noteq> JNum (Fin 0)" "height ?a \<noteq> JNum (Fin 0)"
     "suggestedDuration ?a \<noteq> JNum (Fin 0)"
    using tw th td by auto
  have obj: "gen (take 5000 code) = ResponseText (Some t) \<and> t \<noteq> [] \<and> parse t = Some (JObj kvs) \<longrightarrow>
        width ?a = (case map_of kvs ''width'' of
               Some v \<Rightarrow> if truthy v then v else JNum (Fin 500) | None \<Rightarrow> JNum (Fin 500))
      \<and> height ?a = (case map_of kvs ''height'' of
               Some v \<Rightarrow> if truthy v then v else JNum (Fin 500) | None \<Rightarrow> JNum (Fin 500))
      \<and> suggestedDuration ?a = (case map_of kvs ''suggestedDuration'' of
               Some v \<Rightarrow> if truthy v then v else JNum (Fin 5) | None \<Rightarrow> JNum (Fin 5))
      \<and> hasSmil ?a = (case map_of kvs ''hasSmil'' of
               Some v \<Rightarrow> if truthy v then v else JBool False | None \<Rightarrow> JBool False)
      \<and> hasCssAnimation ?a = (case map_of kvs ''hasCssAnimation'' of
               Some v \<Rightarrow> if truthy v then v else JBool False | None \<Rightarrow> JBool False)
      \<and> viewBox ?a = (case map_of kvs ''viewBox'' of
               Some v \<Rightarrow> if truthy v then v else JNull | None \<Rightarrow> JNull)"
    by (simp add: analyzeSvg_def analyzeSvg_try_def or_default_def)
  have fl: "analyzeSvg_try gen parse code = Inl e \<longrightarrow> ?a = fallback_analysis"
    and su: "analyzeSvg_try gen parse code = Inr a \<longrightarrow> ?a = a"
    by (simp_all add: analyzeSvg_def)
  from fl su obj ds dc dv tw th td nz show ?thesis by blast
qed

theorem analyzeSvg_defaults_witness:
  "analyzeSvg_try (\<lambda>prompt. RequestFailed ''quota exceeded'') (\<lambda>text. None) ''<svg/>''
     = Inl (Error ''quota exceeded'')
   \<and> analyzeSvg (\<lambda>prompt. RequestFailed ''quota exceeded'') (\<lambda>text. None) ''<svg/>''
     = fallback_analysis
   \<and> (\<lambda>text. Some example_reply) ''reply'' = Some example_reply
   \<and> height (analyzeSvg (\<lambda>prompt. ResponseText (Some ''reply'')) (\<lambda>text. Some example_reply) ''<svg/>'')
     = JNum (Fin 500)
   \<and> suggestedDuration
        (analyzeSvg (\<lambda>prompt. ResponseText (Some ''reply'')) (\<lambda>text. Some example_reply) ''<svg/>'')
     = JNum (Fin 3)"
proof -
  let ?kvs = "[(''hasSmil'', JBool True), (''hasCssAnimation'', JBool False),
               (''width'', JNum (Fin (- 5))), (''height'', JNum (Fin 0)),
               (''suggestedDuration'', JNum (Fin 3))]"
  have h1: "analyzeSvg_try (\<lambda>prompt. RequestFailed ''quota exceeded'') (\<lambda>text. None) ''<svg/>''
              = Inl (Error ''quota exceeded'')"
    by (simp add: analyzeSvg_try_def)
  have h2: "(\<lambda>prompt. ResponseText (Some ''reply'')) (take 5000 ''<svg/>'') = ResponseText (Some ''reply'')
            \<and> ''reply'' \<noteq> [] \<and> (\<lambda>text. Some example_reply) ''reply'' = Some (JObj ?kvs)"
    by (simp add: example_reply_def)
  have A: "analyzeSvg (\<lambda>prompt. RequestFailed ''quota exceeded'') (\<lambda>text. None) ''<svg/>''
             = fallback_analysis"
    using analyzeSvg_defaults[of "\<lambda>prompt. RequestFailed ''quota exceeded''" "\<lambda>text. None" "''<svg/>''"
            "Error ''quota exceeded''"] h1
    by blast
  have B: "height (analyzeSvg (\<lambda>prompt. ResponseText (Some ''reply'')) (\<lambda>text. Some example_reply) ''<svg/>'')
             = (case map_of ?kvs ''height'' of
                  Some v \<Rightarrow> if truthy v then v else JNum (Fin 500) | None \<Rightarrow> JNum (Fin 500))
           \<and> suggestedDuration
               (analyzeSvg (\<lambda>prompt. ResponseText (Some ''reply'')) (\<lambda>text. Some example_reply) ''<svg/>'')
             = (case map_of ?kvs ''suggestedDuration'' of
                  Some v \<Rightarrow> if truthy v then v else JNum (Fin 5) | None \<Rightarrow> JNum (Fin 5))"
    using analyzeSvg_defaults[of "\<lambda>prompt. ResponseText (Some ''reply'')" "\<lambda>text. Some example_reply"
            "''<svg/>''" "Error []" fallback_analysis "''reply''" ?kvs] h2
    by blast
  from B have "height (analyzeSvg (\<lambda>prompt. ResponseText (Some ''reply'')) (\<lambda>text. Some example_reply) ''<svg/>'')
             = JNum (Fin 500)
           \<and> suggestedDuration
               (analyzeSvg (\<lambda>prompt. ResponseText (Some ''reply'')) (\<lambda>text. Some example_reply) ''<svg/>'')
             = JNum (Fin 3)"
    by simp
  with h1 A show ?thesis by simp
qed

theorem analyzeSvg_negative_width:
  "width (analyzeSvg (\<lambda>prompt. ResponseText (Some ''reply'')) (\<lambda>text. Some example_reply) ''<svg/>'')
     = JNum (Fin (- 5))
   \<and> \<not> (0::rat) < - 5"
  by (simp add: analyzeSvg_def analyzeSvg_try_def example_reply_def or_default_def)

section \<open>Dimension resolution (claim C3)\<close>

lemma rnd_0 [simp]: "rnd 0 = Fin 0"
  by (simp add: rnd_def round53_def)

lemma Math_round_of_int: "Math_round (Fin (of_int n)) = Fin (of_int n)"
proof -
  have "\<lfloor>(of_int n :: rat) + 1 / 2\<rfloor> = n" by linarith
  then show ?thesis by simp
qed

lemma Math_round_0 [simp]: "Math_round (Fin 0) = Fin 0"
  using Math_round_of_int[of 0] by simp

lemma parseFloat_400: "parseFloat_chars ''400'' = Fin 400"
proof -
  have "parseFloat_chars ''400'' = rnd (of_nat 400)"
    by (simp add: parseFloat_chars_def strip_sign_def is_white_def is_white_unit_def is_digit_def
          digits_value_def exponent_part_def Let_def)
  also have "\<dots> = Fin (of_nat 400)" by (rule rnd_of_nat) simp
  finally show ?thesis by simp
qed

lemma getDimensions_scenario_A:
  "getDimensions example_browser ''<svg width='400' height='400'>'' (Fin (3 / 2))
     = Inr (Fin 600, Fin 600)"
proof -
  have "js_mul (Fin 400) (Fin (3 / 2)) = rnd (of_nat 600)" by simp
  also have "\<dots> = Fin (of_nat 600)" by (rule rnd_of_nat) simp
  finally have m: "js_mul (Fin 400) (Fin (3 / 2)) = Fin 600" by simp
  have r: "Math_round (Fin 600) = Fin 600" using Math_round_of_int[of 600] by simp
  show ?thesis
    by (simp add: getDimensions_def example_browser_def dimension_of_def parseFloat_400 m r
          del: js_mul.simps Math_round.simps)
qed

text \<open>
  C3. The claim resolves a root element that has neither a \<^verbatim>\<open>width\<close> attribute nor a
  \<^verbatim>\<open>viewBox\<close> to the default 500, and says that the resolution never fails. In the
  code the second operand of \<^verbatim>\<open>||\<close> is \<^verbatim>\<open>viewBox.baseVal.width.toString()\<close>, a string
  that is never empty, so the third operand \<^verbatim>\<open>'500'\<close> is never reached: such an element
  resolves to a canvas of 0 by 0 at scale 1, and an element whose \<^verbatim>\<open>viewBox.baseVal\<close> cannot
  be read makes the call throw a TypeError.
\<close>

theorem getDimensions_without_size:
  "getDimensions
     (example_browser\<lparr>parse_xml_svg :=
        (\<lambda>s. Some \<lparr>attr_width = None, attr_height = None, viewBox_baseVal = Some (Fin 0, Fin 0)\<rparr>)\<rparr>)
     ''<svg xmlns='http://www.w3.org/2000/svg'><rect width='10' height='10'/></svg>'' (Fin 1)
     = Inr (Fin 0, Fin 0)
   \<and> getDimensions
     (example_browser\<lparr>parse_xml_svg :=
        (\<lambda>s. Some \<lparr>attr_width = None, attr_height = None, viewBox_baseVal = None\<rparr>)\<rparr>)
     ''<svg><rect width='10' height='10'/></svg>'' (Fin 1)
     = Inl TypeError"
  by (simp add: getDimensions_def dimension_of_def example_browser_def del: Math_round.simps)

section \<open>One frame: seeking and rasterizing (claims C7, C8, C9)\<close>

lemma captureFrame_blob_texts:
  "blob_texts (trace (snd (captureFrame env svg t cfg st)))
     = blob_texts (trace st) @ (if has_svg env svg then [seeked_markup env svg t] else [])"
  by (simp add: captureFrame_trace frame_events_def)

lemma captureFrame_querySelector:
  "querySelector_svg (snd (captureFrame env svg t cfg st)) = None"
  by (simp add: querySelector_svg_def captureFrame_container)

text \<open>
  C9. The markup a frame is rasterized from is
  \<open>serializeToString env (seek_css t (seek_smil env t (fresh_svg svg)))\<close>: it is computed
  from the original markup and the time alone. \<open>captureFrame\<close> hands exactly this text
  to \<^verbatim>\<open>createObjectURL\<close> in whatever state the converter is, also right after a seek
  of the same markup to another time \<open>u\<close>, and it leaves no \<^verbatim>\<open>svg\<close> element behind
  in the container.
\<close>

theorem seek_is_deterministic_and_isolated:
  "blob_texts (trace (snd (captureFrame env svg t cfg st)))
     = blob_texts (trace st) @ (if has_svg env svg then [seeked_markup env svg t] else [])
   \<and> blob_texts (trace (snd (captureFrame env svg t cfg (snd (captureFrame env svg u cfg' st)))))
     = blob_texts (trace st)
         @ (if has_svg env svg then [seeked_markup env svg u, seeked_markup env svg t] else [])
   \<and> blob_texts (trace (snd (captureFrame env svg t cfg (snd (captureFrame env svg t cfg' st)))))
     = blob_texts (trace st)
         @ (if has_svg env svg then [seeked_markup env svg t, seeked_markup env svg t] else [])
   \<and> seeked_markup env svg t
     = serializeToString env (seek_css t (seek_smil env t (fresh_svg svg)))
   \<and> querySelector_svg (snd (captureFrame env svg t cfg st)) = None"
  by (simp add: captureFrame_blob_texts captureFrame_querySelector seeked_markup_def)


















lemma parse_color_white: "parse_color ''#ffffff'' = Some (RGBA 255 255 255 255)"
  by (simp add: parse_color_def hex_digit_def)

lemma source_over_opaque_white [simp]:
  "source_over (RGBA 255 255 255 255) c = RGBA 255 255 255 255"
  by (cases c) simp

lemma draw_frame_bitmap:
  assumes "in_rect (Fin 0) (Fin 0) (canvas_width st) (canvas_height st) p"
  shows "bitmap (draw_frame env img cfg st) p
           = source_over (rasterize env img (Fin 0, Fin 0, canvas_width st, canvas_height st) p)
               (if transparent cfg then transparent_black else RGBA 255 255 255 255)"
  using assms
  by (simp add: draw_frame_def canvas_do_def log_event_def Let_def parse_color_white)

lemma captureFrame_bitmap:
  assumes "frame_ok env svg t"
    and "in_rect (Fin 0) (Fin 0) (canvas_width st) (canvas_height st) p"
  shows "bitmap (snd (captureFrame env svg t cfg st)) p
           = source_over
               (rasterize env (seeked_markup env svg t)
                  (Fin 0, Fin 0, canvas_width st, canvas_height st) p)
               (if transparent cfg then transparent_black else RGBA 255 255 255 255)"
proof -
  let ?st4 = "log_event (CreateObjectURL (seeked_markup env svg t))
                (set_live_svg (seek_css t (seek_smil env t (fresh_svg svg)))
                   ((if current_time (seek_smil env t (fresh_svg svg)) = Some t
                     then log_event (SmilSeek t) else id)
                      (set_innerHTML env svg (ensureContainer (log_event (CaptureFrame t) st)))))"
  have dims: "canvas_width ?st4 = canvas_width st" "canvas_height ?st4 = canvas_height st"
    by (simp_all add: log_event_def set_live_svg_def set_innerHTML_def ensureContainer_def
          split: option.splits container.splits)
  have "bitmap (snd (captureFrame env svg t cfg st)) = bitmap (draw_frame env (seeked_markup env svg t) cfg ?st4)"
    using assms(1)
    unfolding captureFrame_def Let_def querySelector_after_innerHTML
    by (simp add: frame_ok_def seeked_markup_def set_innerHTML_def log_event_def)
  then show ?thesis
    using draw_frame_bitmap[of ?st4 p env "seeked_markup env svg t" cfg] assms(2)
    by (simp only: dims)
qed


lemma captureFrame_canvas_ops:
  "canvas_ops (trace (snd (captureFrame env svg t cfg st)))
     = canvas_ops (trace st)
         @ (if frame_ok env svg t
            then frame_ops cfg (seeked_markup env svg t) (canvas_width st) (canvas_height st)
            else [])"
  by (simp add: captureFrame_trace frame_events_canvas_ops)

text \<open>
  C7. A frame whose markup has an \<^verbatim>\<open>svg\<close> element and whose image loads issues, on the
  2D context and in this order: \<^verbatim>\<open>clearRect\<close> over the whole canvas; when
  \<open>transparent\<close> is false, \<^verbatim>\<open>fillStyle = '#ffffff'\<close> and \<^verbatim>\<open>fillRect\<close> over the whole
  canvas; \<^verbatim>\<open>drawImage\<close> of the decoded frame over the whole canvas; \<^verbatim>\<open>toDataURL\<close>.
  The returned frame is the bitmap after these calls. Each of its pixels is the image's
  pixel composited over opaque white when \<open>transparent\<close> is false and over transparent
  black when it is true, whatever the canvas held before; so where the image is fully
  transparent the frame is opaque white in the first case and keeps alpha 0 in the
  second.
\<close>

theorem rasterization_clears_then_fills:
  assumes "frame_ok env svg t"
  shows
   "canvas_ops (trace (snd (captureFrame env svg t cfg st)))
      = canvas_ops (trace st)
        @ ClearRect (Fin 0) (Fin 0) (canvas_width st) (canvas_height st)
        # (if transparent cfg then []
           else [SetFillStyle ''#ffffff'',
                 FillRect (Fin 0) (Fin 0) (canvas_width st) (canvas_height st)])
        @ [DrawImage (seeked_markup env svg t) (Fin 0) (Fin 0) (canvas_width st) (canvas_height st),
           ToDataURL ''image/png'']
    \<and> fst (captureFrame env svg t cfg st)
      = Inr (PngDataUrl (canvas_width st) (canvas_height st)
               (bitmap (snd (captureFrame env svg t cfg st))))
    \<and> (\<forall>p. in_rect (Fin 0) (Fin 0) (canvas_width st) (canvas_height st) p \<longrightarrow>
          bitmap (snd (captureFrame env svg t cfg st)) p
            = source_over
                (rasterize env (seeked_markup env svg t)
                   (Fin 0, Fin 0, canvas_width st, canvas_height st) p)
                (if transparent cfg then RGBA 0 0 0 0 else RGBA 255 255 255 255))
    \<and> (\<forall>p. in_rect (Fin 0) (Fin 0) (canvas_width st) (canvas_height st) p
            \<and> alpha (rasterize env (seeked_markup env svg t)
                        (Fin 0, Fin 0, canvas_width st, canvas_height st) p) = 0 \<longrightarrow>
          bitmap (snd (captureFrame env svg t cfg st)) p
            = (if transparent cfg then RGBA 0 0 0 0 else RGBA 255 255 255 255))"
proof -
  have ops: "canvas_ops (trace (snd (captureFrame env svg t cfg st)))
      = canvas_ops (trace st)
        @ ClearRect (Fin 0) (Fin 0) (canvas_width st) (canvas_height st)
        # (if transparent cfg then []
           else [SetFillStyle ''#ffffff'',
                 FillRect (Fin 0) (Fin 0) (canvas_width st) (canvas_height st)])
        @ [DrawImage (seeked_markup env svg t) (Fin 0) (Fin 0) (canvas_width st) (canvas_height st),
           ToDataURL ''image/png'']"
    using assms by (simp add: captureFrame_canvas_ops frame_ops_def)
  have res: "fst (captureFrame env svg t cfg st)
      = Inr (PngDataUrl (canvas_width st) (canvas_height st)
               (bitmap (snd (captureFrame env svg t cfg st))))"
    using assms by (simp add: captureFrame_fst toDataURL_def captureFrame_dims)
  have px: "bitmap (snd (captureFrame env svg t cfg st)) p
            = source_over
                (rasterize env (seeked_markup env svg t)
                   (Fin 0, Fin 0, canvas_width st, canvas_height st) p)
                (if transparent cfg then RGBA 0 0 0 0 else RGBA 255 255 255 255)"
    if "in_rect (Fin 0) (Fin 0) (canvas_width st) (canvas_height st) p" for p
    using captureFrame_bitmap[OF assms that, of cfg] by (simp add: transparent_black_def)
  have clear: "bitmap (snd (captureFrame env svg t cfg st)) p
            = (if transparent cfg then RGBA 0 0 0 0 else RGBA 255 255 255 255)"
    if "in_rect (Fin 0) (Fin 0) (canvas_width st) (canvas_height st) p"
      and "alpha (rasterize env (seeked_markup env svg t)
                        (Fin 0, Fin 0, canvas_width st, canvas_height st) p) = 0" for p
  proof -
    obtain r g b a where c: "rasterize env (seeked_markup env svg t)
                        (Fin 0, Fin 0, canvas_width st, canvas_height st) p = RGBA r g b a"
      by (cases "rasterize env (seeked_markup env svg t)
                        (Fin 0, Fin 0, canvas_width st, canvas_height st) p") auto
    with that(2) have "a = 0" by simp
    then show ?thesis using px[OF that(1)] c by simp
  qed
  from ops res px clear show ?thesis by blast
qed

theorem rasterization_clears_then_fills_witness:
  "frame_ok example_browser ''<svg/>'' (Fin 0)
   \<and> in_rect (Fin 0) (Fin 0) (canvas_width fresh_converter) (canvas_height fresh_converter) (0, 0)
   \<and> alpha (rasterize example_browser (seeked_markup example_browser ''<svg/>'' (Fin 0))
        (Fin 0, Fin 0, canvas_width fresh_converter, canvas_height fresh_converter) (0, 0)) = 0
   \<and> bitmap (snd (captureFrame example_browser ''<svg/>'' (Fin 0) app_settings fresh_converter)) (0, 0)
       = RGBA 255 255 255 255
   \<and> bitmap (snd (captureFrame example_browser ''<svg/>'' (Fin 0)
                    (app_settings\<lparr>transparent := True\<rparr>) fresh_converter)) (0, 0)
       = RGBA 0 0 0 0"
proof -
  have ok: "frame_ok example_browser ''<svg/>'' (Fin 0)"
    by (simp add: frame_ok_def has_svg_def example_browser_def)
  have inr: "in_rect (Fin 0) (Fin 0) (canvas_width fresh_converter) (canvas_height fresh_converter) (0, 0)"
    by (simp add: fresh_converter_def)
  have al: "alpha (rasterize example_browser (seeked_markup example_browser ''<svg/>'' (Fin 0))
        (Fin 0, Fin 0, canvas_width fresh_converter, canvas_height fresh_converter) (0, 0)) = 0"
    by (simp add: example_browser_def)
  from rasterization_clears_then_fills[OF ok, of app_settings fresh_converter] inr al
  have a: "bitmap (snd (captureFrame example_browser ''<svg/>'' (Fin 0) app_settings fresh_converter)) (0, 0)
       = (if transparent app_settings then RGBA 0 0 0 0 else RGBA 255 255 255 255)"
    by blast
  from rasterization_clears_then_fills[OF ok, of "app_settings\<lparr>transparent := True\<rparr>" fresh_converter]
    inr al
  have b: "bitmap (snd (captureFrame example_browser ''<svg/>'' (Fin 0)
                    (app_settings\<lparr>transparent := True\<rparr>) fresh_converter)) (0, 0)
       = (if transparent (app_settings\<lparr>transparent := True\<rparr>) then RGBA 0 0 0 0
          else RGBA 255 255 255 255)"
    by blast
  from ok inr al a b show ?thesis by (simp add: app_settings_def)
qed

section \<open>Evaluating the rounding, and whole runs\<close>

lemma round_half_even_eqI:
  assumes "of_int m - 1 / 2 < x" "x < of_int m + 1 / 2"
  shows "round_half_even x = m"
proof (cases "of_int m \<le> x")
  case True
  then have "\<lfloor>x\<rfloor> = m" using assms(2) by linarith
  then show ?thesis using assms(2) by (simp add: round_half_even_def Let_def)
next
  case False
  then have "\<lfloor>x\<rfloor> = m - 1" using assms(1) by linarith
  then show ?thesis using assms(1) by (simp add: round_half_even_def Let_def)
qed

lemma rnd_eqI:
  assumes "0 < q" "2 powi k \<le> q" "q < 2 powi (k + 1)" "- 1022 \<le> k" "k < 1023"
    and "of_int m - 1 / 2 < q * 2 powi (52 - k)" "q * 2 powi (52 - k) < of_int m + 1 / 2"
  shows "rnd q = Fin (of_int m * 2 powi (k - 52))"
proof -
  have il: "ilog2 q = k" using assms(1-3) by (rule ilog2_unique)
  have ue: "ulp_exp q = k - 52" using assms(1,4) il by (simp add: ulp_exp_def)
  have "(2::rat) powi (52 - k) = inverse (2 powi (k - 52))"
    using power_int_minus[of "2::rat" "k - 52"] by simp
  then have x: "q / 2 powi (k - 52) = q * 2 powi (52 - k)" by (simp add: divide_inverse)
  have rh: "round_half_even (q / 2 powi (k - 52)) = m"
    unfolding x using assms(6,7) by (rule round_half_even_eqI)
  have r: "round53 q = of_int m * 2 powi (k - 52)"
    using assms(1) by (simp add: round53_def ue rh)
  have pos: "(0::rat) < 2 powi (52 - k)" by simp
  have "q * 2 powi (52 - k) < 2 powi (k + 1) * 2 powi (52 - k)"
    using assms(3) pos by (simp add: mult_strict_right_mono)
  also have "(2::rat) powi (k + 1) * 2 powi (52 - k) = 2 powi 53"
  proof -
    have e: "(k + 1) + (52 - k) = 53" by simp
    have "(2::rat) powi ((k + 1) + (52 - k)) = 2 powi (k + 1) * 2 powi (52 - k)"
      by (rule power_int_add) simp
    then show ?thesis unfolding e by simp
  qed
  finally have "of_int m - 1 / 2 < (2::rat) powi 53" using assms(6) by linarith
  then have "(of_int m :: rat) < of_int (2 ^ 53) + 1 / 2" by (simp add: power_int_def)
  then have m_hi: "m \<le> 2 ^ 53" by linarith
  have "- 1 / 2 < (of_int m :: rat)"
  proof -
    have "0 < q * 2 powi (52 - k)" using assms(1) pos by simp
    then show ?thesis using assms(7) by linarith
  qed
  then have m_lo: "0 \<le> m" by linarith
  have "(of_int m :: rat) * 2 powi (k - 52) \<le> of_int (2 ^ 53) * 2 powi (k - 52)"
    using m_hi by (intro mult_right_mono) (simp_all only: of_int_le_iff zero_le_power_int zero_le_numeral)
  also have "(of_int (2 ^ 53) :: rat) * 2 powi (k - 52) = 2 powi (k + 1)"
  proof -
    have e: "53 + (k - 52) = k + 1" by simp
    have "(2::rat) powi (53 + (k - 52)) = 2 powi 53 * 2 powi (k - 52)"
      by (rule power_int_add) simp
    then show ?thesis unfolding e by simp
  qed
  also have "(2::rat) powi (k + 1) < 2 powi 1024"
    using assms(5) by (intro power_int_strict_increasing) simp_all
  finally have hi: "(of_int m :: rat) * 2 powi (k - 52) < 2 powi 1024" .
  have "(0::rat) \<le> of_int m * 2 powi (k - 52)" using m_lo by simp
  then have "\<bar>round53 q\<bar> < 2 powi 1024" using hi r by simp
  then show ?thesis using r by (simp add: rnd_def Let_def)
qed

lemma one_over_30: "rnd (1 / 30) = Fin (4803839602528529 / 144115188075855872)"
proof -
  have "rnd (1 / 30) = Fin (of_int 4803839602528529 * 2 powi (- 5 - 52))"
    by (rule rnd_eqI) (simp_all add: power_int_def power_divide)
  then show ?thesis by (simp add: power_int_def power_divide)
qed

lemma frame_23_time:
  "js_mul (Fin 23) (js_div (Fin 1) (Fin 30)) = Fin (863189928579345 / 1125899906842624)"
proof -
  have "rnd (23 * (4803839602528529 / 144115188075855872))
          = Fin (of_int 6905519428634760 * 2 powi (- 1 - 52))"
    by (rule rnd_eqI) (simp_all add: power_int_def power_divide)
  then show ?thesis by (simp add: one_over_30 power_int_def power_divide)
qed

lemma frame_23_quotient:
  "js_div (Fin 23) (Fin 30) = Fin (6905519428634761 / 9007199254740992)"
proof -
  have "rnd (23 / 30) = Fin (of_int 6905519428634761 * 2 powi (- 1 - 52))"
    by (rule rnd_eqI) (simp_all add: power_int_def power_divide)
  then show ?thesis by (simp add: power_int_def power_divide)
qed


lemma rnd_119_120: "rnd (119 / 120) = Fin (2233034815237871 / 2251799813685248)"
proof -
  have "rnd (119 / 120) = Fin (of_int 8932139260951484 * 2 powi (- 1 - 52))"
    by (rule rnd_eqI) (simp_all add: power_int_def power_divide)
  then show ?thesis by (simp add: power_int_def power_divide)
qed

lemma last_video_progress: "progress_at (Fin 100) 120 119 = Fin 99"
proof -
  have "rnd (2233034815237871 / 2251799813685248 * 100)
          = Fin (of_int 6978233797618347 * 2 powi (6 - 52))"
    by (rule rnd_eqI) (simp_all add: power_int_def power_divide)
  then have m: "rnd (2233034815237871 / 2251799813685248 * 100)
                  = Fin (6978233797618347 / 70368744177664)"
    by (simp add: power_int_def power_divide)
  have f: "\<lfloor>(6978233797618347 / 70368744177664 :: rat) + 1 / 2\<rfloor> = 99" by linarith
  show ?thesis
    using m f by (simp add: progress_at_def rnd_119_120)
qed

declare js_mul.simps [simp del] js_div.simps [simp del] js_add.simps [simp del]
  Math_ceil.simps [simp del] Math_round.simps [simp del]

lemma first_failure:
  fixes n :: nat
  assumes "\<not> (\<forall>k<n. P k)"
  obtains j where "j < n" "\<not> P j" "\<forall>k<j. P k"
proof -
  from assms have "\<exists>j. j < n \<and> \<not> P j" by blast
  then obtain j where "j < n \<and> \<not> P j" "\<forall>m<j. \<not> (m < n \<and> \<not> P m)"
    using exists_least_iff[of "\<lambda>j. j < n \<and> \<not> P j"] by blast
  then have "j < n" "\<not> P j" "\<forall>k<j. P k" by auto
  then show thesis by (rule that)
qed

lemma upt_split: "j < n \<Longrightarrow> [0..<n] = [0..<j] @ j # [Suc j..<n]"
  by (metis le_add2 le_add_same_cancel2 less_imp_add_positive upt_add_eq_append upt_conv_Cons)

lemma video_settings:
  assumes "fps cfg = Fin f" "duration cfg = Fin d" "0 < f" "0 < d" "round53 (d * f) \<le> 2 ^ 53"
  shows "video_loop capture pace (Math_ceil (js_mul (duration cfg) (fps cfg))) fd (Fin 0) st
           = Some (video_frames capture pace (Fin (of_nat (frame_count d f))) fd
                     [0..<frame_count d f] st)"
proof -
  have t: "Math_ceil (js_mul (duration cfg) (fps cfg)) = Fin (of_nat (frame_count d f))"
    using total_frames(1)[OF assms(3,4,5)] assms(1,2) by (simp add: frame_count_def)
  have n: "frame_count d f \<le> 2 ^ 53"
    using total_frames(2)[OF assms(3,4,5)] by (simp add: frame_count_def)
  show ?thesis
    unfolding t using video_loop_unroll[OF n, of 0 capture pace fd st] by simp
qed

lemma gif_settings:
  assumes "fps cfg = Fin f" "duration cfg = Fin d" "0 < f" "0 < d" "round53 (d * f) \<le> 2 ^ 53"
  shows "gif_loop capture (Math_ceil (js_mul (duration cfg) (fps cfg))) fd (Fin 0) frames st
           = Some (gif_frames capture (Fin (of_nat (frame_count d f))) fd
                     [0..<frame_count d f] frames st)"
proof -
  have t: "Math_ceil (js_mul (duration cfg) (fps cfg)) = Fin (of_nat (frame_count d f))"
    using total_frames(1)[OF assms(3,4,5)] assms(1,2) by (simp add: frame_count_def)
  have n: "frame_count d f \<le> 2 ^ 53"
    using total_frames(2)[OF assms(3,4,5)] by (simp add: frame_count_def)
  show ?thesis
    unfolding t using gif_loop_unroll[OF n, of 0 capture fd frames st] by simp
qed

lemma generateVideo_ok:
  assumes s: "fps cfg = Fin f" "duration cfg = Fin d" "0 < f" "0 < d" "round53 (d * f) \<le> 2 ^ 53"
    and acc: "recorder_accepts env (selectedMime env)"
    and ok: "\<forall>k<frame_count d f. frame_ok env svg (frame_time (Fin f) k)"
  shows "\<exists>st'. generateVideo env svg cfg st
             = Some (Inr \<lparr>blob_parts = filter (\<lambda>c. c \<noteq> []) (recorder_data env (selectedMime env)),
                          blob_type = selectedMime env\<rparr>, st')
         \<and> capture_times (trace st')
             = capture_times (trace st) @ frame_times (Fin f) (frame_count d f)
         \<and> progress_values (trace st')
             = progress_values (trace st) @ capture_progress (Fin 100) (frame_count d f)"
proof -
  let ?N = "frame_count d f"
  let ?st1 = "log_event (RecorderStart (selectedMime env) (js_mul (Fin 25000000) (quality cfg))) st"
  have ok': "\<forall>k\<in>set [0..<?N]. frame_ok env svg (js_mul (Fin (of_nat k)) (js_div (Fin 1) (Fin f)))"
    using ok by (simp add: frame_time_def)
  from video_frames_ok[OF ok', of cfg "js_add (js_div (Fin 1000) (fps cfg)) (Fin 5)"
         "Fin (of_nat ?N)" ?st1]
  obtain evs st2 where
    v: "video_frames (\<lambda>time. captureFrame env svg time cfg)
          (js_add (js_div (Fin 1000) (fps cfg)) (Fin 5)) (Fin (of_nat ?N)) (js_div (Fin 1) (Fin f))
          [0..<?N] ?st1 = (Inr (), st2)"
    and tr: "trace st2 = trace ?st1 @ evs"
    and ct: "capture_times evs = map (\<lambda>k. js_mul (Fin (of_nat k)) (js_div (Fin 1) (Fin f))) [0..<?N]"
    and pv: "progress_values evs
               = map (\<lambda>k. Math_round (js_mul (js_div (Fin (of_nat k)) (Fin (of_nat ?N))) (Fin 100))) [0..<?N]"
    by blast
  have loop: "video_loop (\<lambda>time. captureFrame env svg time cfg)
          (js_add (js_div (Fin 1000) (fps cfg)) (Fin 5))
          (Math_ceil (js_mul (duration cfg) (fps cfg))) (js_div (Fin 1) (fps cfg)) (Fin 0) ?st1
        = Some (Inr (), st2)"
    using video_settings[OF s] v s(1) by simp
  have "generateVideo env svg cfg st
             = Some (Inr \<lparr>blob_parts = filter (\<lambda>c. c \<noteq> []) (recorder_data env (selectedMime env)),
                          blob_type = selectedMime env\<rparr>, log_event RecorderStop st2)"
    unfolding generateVideo_def Let_def using acc loop by simp
  moreover have "capture_times (trace (log_event RecorderStop st2))
             = capture_times (trace st) @ frame_times (Fin f) ?N"
    using tr ct by (simp add: log_event_def frame_times_def frame_time_def)
  moreover have "progress_values (trace (log_event RecorderStop st2))
             = progress_values (trace st) @ capture_progress (Fin 100) ?N"
    using tr pv by (simp add: log_event_def capture_progress_def progress_at_def)
  ultimately show ?thesis by blast
qed


lemma generateVideo_fail:
  assumes s: "fps cfg = Fin f" "duration cfg = Fin d" "0 < f" "0 < d" "round53 (d * f) \<le> 2 ^ 53"
    and acc: "recorder_accepts env (selectedMime env)"
    and j: "j < frame_count d f"
    and ok: "\<forall>k<j. frame_ok env svg (frame_time (Fin f) k)"
    and bad: "\<not> frame_ok env svg (frame_time (Fin f) j)"
  shows "\<exists>st'. generateVideo env svg cfg st = Some (Inl (frame_error env svg), st')
         \<and> capture_times (trace st') = capture_times (trace st) @ frame_times (Fin f) (Suc j)
         \<and> progress_values (trace st')
             = progress_values (trace st) @ map (progress_at (Fin 100) (frame_count d f)) [0..<j]"
proof -
  let ?N = "frame_count d f"
  let ?st1 = "log_event (RecorderStart (selectedMime env) (js_mul (Fin 25000000) (quality cfg))) st"
  have ok': "\<forall>k\<in>set [0..<j]. frame_ok env svg (js_mul (Fin (of_nat k)) (js_div (Fin 1) (Fin f)))"
    using ok by (simp add: frame_time_def)
  have bad': "\<not> frame_ok env svg (js_mul (Fin (of_nat j)) (js_div (Fin 1) (Fin f)))"
    using bad by (simp add: frame_time_def)
  from video_frames_fail[OF ok' bad', of cfg "js_add (js_div (Fin 1000) (fps cfg)) (Fin 5)"
         "Fin (of_nat ?N)" "[Suc j..<?N]" ?st1]
  obtain evs st2 where
    v: "video_frames (\<lambda>time. captureFrame env svg time cfg)
          (js_add (js_div (Fin 1000) (fps cfg)) (Fin 5)) (Fin (of_nat ?N)) (js_div (Fin 1) (Fin f))
          ([0..<j] @ j # [Suc j..<?N]) ?st1 = (Inl (frame_error env svg), st2)"
    and tr: "trace st2 = trace ?st1 @ evs"
    and ct: "capture_times evs
               = map (\<lambda>k. js_mul (Fin (of_nat k)) (js_div (Fin 1) (Fin f))) ([0..<j] @ [j])"
    and pv: "progress_values evs
               = map (\<lambda>k. Math_round (js_mul (js_div (Fin (of_nat k)) (Fin (of_nat ?N))) (Fin 100))) [0..<j]"
    by blast
  have loop: "video_loop (\<lambda>time. captureFrame env svg time cfg)
          (js_add (js_div (Fin 1000) (fps cfg)) (Fin 5))
          (Math_ceil (js_mul (duration cfg) (fps cfg))) (js_div (Fin 1) (fps cfg)) (Fin 0) ?st1
        = Some (Inl (frame_error env svg), st2)"
    using video_settings[OF s] v s(1) upt_split[OF j] by simp
  have "generateVideo env svg cfg st = Some (Inl (frame_error env svg), st2)"
    unfolding generateVideo_def Let_def using acc loop by simp
  moreover have "capture_times (trace st2) = capture_times (trace st) @ frame_times (Fin f) (Suc j)"
    using tr ct by (simp add: log_event_def frame_times_def frame_time_def)
  moreover have "progress_values (trace st2)
             = progress_values (trace st) @ map (progress_at (Fin 100) ?N) [0..<j]"
    using tr pv by (simp add: log_event_def progress_at_def)
  ultimately show ?thesis by blast
qed

lemma foldl_onProgress:
  "trace (foldl (\<lambda>s p. onProgress (g p) s) st ps) = trace st @ map (\<lambda>p. Progress (g p)) ps"
  by (induction ps arbitrary: st) (simp_all add: onProgress_def log_event_def)

lemma generateGif_ok:
  assumes s: "fps cfg = Fin f" "duration cfg = Fin d" "0 < f" "0 < d" "round53 (d * f) \<le> 2 ^ 53"
    and eng: "waitForGifshot env = Inr gs"
    and ok: "\<forall>k<frame_count d f. frame_ok env svg (frame_time (Fin f) k)"
  shows "\<exists>frames pre st''.
           length frames = frame_count d f
         \<and> capture_times pre = frame_times (Fin f) (frame_count d f)
         \<and> progress_values pre = capture_progress (Fin 60) (frame_count d f)
         \<and> trace st'' = trace st @ pre @ [CreateGIF (Fin (of_nat (frame_count d f)))]
             @ map Progress
                 (encode_progress
                    (progress_calls
                       (gs \<lparr>images = frames, gifWidth = canvas_width st, gifHeight = canvas_height st,
                            interval = js_div (Fin 1) (Fin f),
                            numFrames = Fin (of_nat (frame_count d f))\<rparr>)))
         \<and> generateGif env svg cfg st
             = (let obj = gs \<lparr>images = frames, gifWidth = canvas_width st,
                              gifHeight = canvas_height st, interval = js_div (Fin 1) (Fin f),
                              numFrames = Fin (of_nat (frame_count d f))\<rparr>
                in if \<not> gif_error obj
                   then (case fetch_blob env (image obj) of
                           None \<Rightarrow> None
                         | Some b \<Rightarrow> Some (Inr b, st''))
                   else Some (Inl (Error (''GIF generation failed: '' @ errorMsg obj)), st''))"
proof -
  let ?N = "frame_count d f"
  have t: "Math_ceil (js_mul (Fin d) (Fin f)) = Fin (of_nat ?N)"
    using total_frames(1)[OF s(3,4,5)] by (simp add: frame_count_def)
  have ok': "\<forall>k\<in>set [0..<?N]. frame_ok env svg (js_mul (Fin (of_nat k)) (js_div (Fin 1) (Fin f)))"
    using ok by (simp add: frame_time_def)
  from gif_frames_ok[OF ok', of cfg "Fin (of_nat ?N)" "[]" st]
  obtain frames pre st1 where
    g: "gif_frames (\<lambda>time. captureFrame env svg time cfg) (Fin (of_nat ?N)) (js_div (Fin 1) (Fin f))
          [0..<?N] [] st = (Inr frames, st1)"
    and l: "length frames = length ([]::data_url list) + length [0..<?N]"
    and tr: "trace st1 = trace st @ pre"
    and w: "canvas_width st1 = canvas_width st" and h: "canvas_height st1 = canvas_height st"
    and ct: "capture_times pre = map (\<lambda>k. js_mul (Fin (of_nat k)) (js_div (Fin 1) (Fin f))) [0..<?N]"
    and pv: "progress_values pre
               = map (\<lambda>k. Math_round (js_mul (js_div (Fin (of_nat k)) (Fin (of_nat ?N))) (Fin 60))) [0..<?N]"
    by blast
  have loop: "gif_loop (\<lambda>time. captureFrame env svg time cfg)
          (Math_ceil (js_mul (duration cfg) (fps cfg))) (js_div (Fin 1) (fps cfg)) (Fin 0) [] st
        = Some (Inr frames, st1)"
    using gif_settings[OF s] g s(1) by simp
  let ?obj = "gs \<lparr>images = frames, gifWidth = canvas_width st, gifHeight = canvas_height st,
                  interval = js_div (Fin 1) (Fin f), numFrames = Fin (of_nat ?N)\<rparr>"
  let ?st'' = "foldl (\<lambda>s p. onProgress (js_add (Fin 60) (Math_round (js_mul p (Fin 40)))) s)
                 (log_event (CreateGIF (Fin (of_nat ?N))) st1) (progress_calls ?obj)"
  have "length frames = ?N" using l by simp
  moreover have "capture_times pre = frame_times (Fin f) ?N"
    using ct by (simp add: frame_times_def frame_time_def)
  moreover have "progress_values pre = capture_progress (Fin 60) ?N"
    using pv by (simp add: capture_progress_def progress_at_def)
  moreover have "trace ?st'' = trace st @ pre @ [CreateGIF (Fin (of_nat ?N))]
             @ map Progress (encode_progress (progress_calls ?obj))"
    by (simp add: foldl_onProgress log_event_def tr encode_progress_def)
  moreover have "generateGif env svg cfg st
             = (let obj = ?obj
                in if \<not> gif_error obj
                   then (case fetch_blob env (image obj) of
                           None \<Rightarrow> None
                         | Some b \<Rightarrow> Some (Inr b, ?st''))
                   else Some (Inl (Error (''GIF generation failed: '' @ errorMsg obj)), ?st''))"
    unfolding generateGif_def eng using loop
    by (simp add: Let_def t w h s(1,2) cong: option.case_cong if_cong)
  ultimately show ?thesis by blast
qed

lemma generateGif_fail:
  assumes s: "fps cfg = Fin f" "duration cfg = Fin d" "0 < f" "0 < d" "round53 (d * f) \<le> 2 ^ 53"
    and eng: "waitForGifshot env = Inr gs"
    and j: "j < frame_count d f"
    and ok: "\<forall>k<j. frame_ok env svg (frame_time (Fin f) k)"
    and bad: "\<not> frame_ok env svg (frame_time (Fin f) j)"
  shows "\<exists>st'. generateGif env svg cfg st = Some (Inl (frame_error env svg), st')
         \<and> capture_times (trace st') = capture_times (trace st) @ frame_times (Fin f) (Suc j)
         \<and> progress_values (trace st')
             = progress_values (trace st) @ map (progress_at (Fin 60) (frame_count d f)) [0..<j]"
proof -
  let ?N = "frame_count d f"
  have ok': "\<forall>k\<in>set [0..<j]. frame_ok env svg (js_mul (Fin (of_nat k)) (js_div (Fin 1) (Fin f)))"
    using ok by (simp add: frame_time_def)
  have bad': "\<not> frame_ok env svg (js_mul (Fin (of_nat j)) (js_div (Fin 1) (Fin f)))"
    using bad by (simp add: frame_time_def)
  from gif_frames_fail[OF ok' bad', of cfg "Fin (of_nat ?N)" "[Suc j..<?N]" "[]" st]
  obtain evs st2 where
    v: "gif_frames (\<lambda>time. captureFrame env svg time cfg) (Fin (of_nat ?N)) (js_div (Fin 1) (Fin f))
          ([0..<j] @ j # [Suc j..<?N]) [] st = (Inl (frame_error env svg), st2)"
    and tr: "trace st2 = trace st @ evs"
    and ct: "capture_times evs
               = map (\<lambda>k. js_mul (Fin (of_nat k)) (js_div (Fin 1) (Fin f))) ([0..<j] @ [j])"
    and pv: "progress_values evs
               = map (\<lambda>k. Math_round (js_mul (js_div (Fin (of_nat k)) (Fin (of_nat ?N))) (Fin 60))) [0..<j]"
    by blast
  have loop: "gif_loop (\<lambda>time. captureFrame env svg time cfg)
          (Math_ceil (js_mul (duration cfg) (fps cfg))) (js_div (Fin 1) (fps cfg)) (Fin 0) [] st
        = Some (Inl (frame_error env svg), st2)"
    using gif_settings[OF s] v s(1) upt_split[OF j] by simp
  have "generateGif env svg cfg st = Some (Inl (frame_error env svg), st2)"
    unfolding generateGif_def eng using loop by (simp add: Let_def)
  moreover have "capture_times (trace st2) = capture_times (trace st) @ frame_times (Fin f) (Suc j)"
    using tr ct by (simp add: frame_times_def frame_time_def)
  moreover have "progress_values (trace st2)
             = progress_values (trace st) @ map (progress_at (Fin 60) ?N) [0..<j]"
    using tr pv by (simp add: progress_at_def)
  ultimately show ?thesis by blast
qed

section \<open>Frame count, timestamps and progress (claims C1, C2)\<close>

lemma Math_round_range:
  assumes "0 \<le> r" "r \<le> of_nat s"
  shows "\<exists>m. Math_round (Fin r) = Fin (of_nat m) \<and> m \<le> s"
proof -
  have lo: "0 \<le> \<lfloor>r + 1 / 2\<rfloor>" using assms(1) by linarith
  have hi: "\<lfloor>r + 1 / 2\<rfloor> \<le> int s" using assms(2) by linarith
  have "(of_int \<lfloor>r + 1 / 2\<rfloor> :: rat) = of_nat (nat \<lfloor>r + 1 / 2\<rfloor>)" using lo by simp
  moreover have "nat \<lfloor>r + 1 / 2\<rfloor> \<le> s" using hi by simp
  ultimately show ?thesis by (auto simp: Math_round.simps)
qed

lemma progress_at_range:
  assumes "i < n" "n \<le> 2 ^ 53" "s \<le> 2 ^ 53"
  shows "\<exists>m. progress_at (Fin (of_nat s)) n i = Fin (of_nat m) \<and> m \<le> s"
proof -
  have npos: "(0::rat) < of_nat n" using assms(1) by simp
  have q0: "(of_nat 0 :: rat) \<le> of_nat i / of_nat n" using npos by simp
  have q1: "(of_nat i :: rat) / of_nat n \<le> of_nat 1" using assms(1) npos by simp
  from rnd_between[OF q0 q1] obtain r where
    r: "rnd (of_nat i / of_nat n) = Fin r" and r0: "0 \<le> r" and r1: "r \<le> 1" by auto
  have p0: "(of_nat 0 :: rat) \<le> r * of_nat s" using r0 by simp
  have p1: "r * of_nat s \<le> of_nat s"
    using mult_right_mono[OF r1, of "of_nat s"] by simp
  from rnd_between[OF p0 p1 assms(3)] obtain r2 where
    r2: "rnd (r * of_nat s) = Fin r2" and a: "0 \<le> r2" and b: "r2 \<le> of_nat s" by auto
  from Math_round_range[OF a b] obtain m where "Math_round (Fin r2) = Fin (of_nat m)" "m \<le> s"
    by blast
  moreover have "progress_at (Fin (of_nat s)) n i = Math_round (Fin r2)"
    using npos r r2 by (simp add: progress_at_def js_div.simps js_mul.simps)
  ultimately show ?thesis by auto
qed

lemma encode_progress_range:
  assumes "0 \<le> x" "x \<le> 1"
  shows "\<exists>m. js_add (Fin 60) (Math_round (js_mul (Fin x) (Fin 40))) = Fin (of_nat m)
             \<and> 60 \<le> m \<and> m \<le> 100"
proof -
  have p0: "(of_nat 0 :: rat) \<le> x * 40" using assms(1) by simp
  have p1: "x * 40 \<le> of_nat 40" using assms(2) by simp
  from rnd_between[OF p0 p1] obtain r where
    r: "rnd (x * 40) = Fin r" and a: "0 \<le> r" and b: "r \<le> of_nat 40" by auto
  from Math_round_range[OF a b] obtain m where m: "Math_round (Fin r) = Fin (of_nat m)" "m \<le> 40"
    by blast
  have "60 + m \<le> 2 ^ 53" using m(2) by simp
  from rnd_of_nat[OF this] have "rnd (60 + of_nat m) = Fin (of_nat (60 + m))" by simp
  then have "js_add (Fin 60) (Math_round (js_mul (Fin x) (Fin 40))) = Fin (of_nat (60 + m))"
    using r m(1) by (simp add: js_mul.simps js_add.simps)
  moreover have "60 \<le> 60 + m" "60 + m \<le> 100" using m(2) by simp_all
  ultimately show ?thesis by blast
qed

lemma encode_progress_final:
  "js_add (Fin 60) (Math_round (js_mul (Fin 1) (Fin 40))) = Fin 100"
proof -
  have a: "rnd 40 = Fin 40" using rnd_of_nat[of 40] by simp
  have b: "Math_round (Fin 40) = Fin 40" using Math_round_of_int[of 40] by simp
  have c: "rnd 100 = Fin 100" using rnd_of_nat[of 100] by simp
  show ?thesis by (simp add: js_mul.simps js_add.simps a b c)
qed

lemma ilog2_pow2: "ilog2 (2 powi k) = k"
  by (rule ilog2_unique) (simp_all add: power_int_strict_increasing)

lemma frame_time_pow2:
  assumes "k \<le> 1000" "i < 2 ^ 53"
  shows "frame_time (Fin (2 ^ k)) i = Fin (of_nat i / 2 ^ k)"
proof -
  have pk: "(2::rat) powi (- int k) = 1 / 2 ^ k"
    by (simp add: power_int_def power_divide)
  have u1: "ulp_exp (2 powi (- int k)) \<le> - int k"
    using assms(1) by (simp add: ulp_exp_def ilog2_pow2)
  have "round53 (2 powi (- int k)) = 2 powi (- int k)"
    by (rule round53_grid[where m = 1 and e = "- int k"]) (simp_all add: u1)
  then have r1: "round53 (1 / 2 ^ k) = 1 / 2 ^ k" unfolding pk .
  have "\<bar>round53 (1 / 2 ^ k :: rat)\<bar> \<le> 1" unfolding r1 by (simp add: divide_le_eq)
  moreover have "(1::rat) \<le> 2 ^ 53" by simp
  ultimately have "\<bar>round53 (1 / 2 ^ k :: rat)\<bar> \<le> 2 ^ 53" by (rule order_trans)
  from rnd_small[OF this] have inv: "rnd (1 / 2 ^ k) = Fin (1 / 2 ^ k)" using r1 by simp
  have prod: "rnd (of_nat i / 2 ^ k) = Fin (of_nat i / 2 ^ k)"
  proof (cases "i = 0")
    case True
    then show ?thesis by simp
  next
    case False
    let ?q = "(of_nat i :: rat) * 2 powi (- int k)"
    have qpos: "0 < ?q" using False by simp
    have "(of_nat i :: rat) < of_nat (2 ^ 53)" using assms(2) by (simp only: of_nat_less_iff)
    then have "(of_nat i :: rat) < 2 powi 53" by simp
    then have "?q < 2 powi 53 * 2 powi (- int k)" by (simp add: mult_strict_right_mono)
    also have "(2::rat) powi 53 * 2 powi (- int k) = 2 powi (53 - int k)"
      using power_int_add[of "2::rat" 53 "- int k"] by simp
    finally have "ilog2 ?q < 53 - int k" using qpos by (intro ilog2_less) auto
    then have u: "ulp_exp ?q \<le> - int k" using assms(1) qpos by (simp add: ulp_exp_def)
    have g: "round53 ?q = ?q"
      by (rule round53_grid[where m = "int i" and e = "- int k"]) (simp_all add: u)
    have "?q \<le> of_nat i" by (simp add: pk divide_le_eq mult_le_cancel_left1)
    also have "(of_nat i :: rat) \<le> of_nat (2 ^ 53)" using assms(2) by (simp only: of_nat_le_iff less_imp_le)
    finally have "\<bar>round53 ?q\<bar> \<le> 2 ^ 53" using qpos g by simp
    from rnd_small[OF this] show ?thesis using g by (simp add: pk)
  qed
  show ?thesis by (simp add: frame_time_def js_div.simps js_mul.simps inv prod)
qed


lemma example_round53: "round53 120 = 120" "round53 128 = 128"
  using round53_of_nat[of 120] round53_of_nat[of 128] by simp_all

lemma example_frame_count: "frame_count 4 30 = 120" "frame_count 4 32 = 128"
  by (simp_all add: frame_count_def example_round53)

lemma example_frame_ok: "frame_ok example_browser ''<svg/>'' t"
  by (simp add: frame_ok_def has_svg_def example_browser_def)

lemma example_selectedMime: "selectedMime example_browser = ''video/mp4;codecs=h264''"
  by (simp add: selectedMime_def mimeTypes_def example_browser_def)

lemma example_video_run:
  "\<exists>st'. generateVideo example_browser ''<svg/>'' (app_settings\<lparr>format := fmt\<rparr>) st
           = Some (Inr \<lparr>blob_parts = [''webm-or-mp4-bytes''],
                        blob_type = ''video/mp4;codecs=h264''\<rparr>, st')
       \<and> capture_times (trace st') = capture_times (trace st) @ frame_times (Fin 30) 120
       \<and> progress_values (trace st') = progress_values (trace st) @ capture_progress (Fin 100) 120"
proof -
  have s: "fps (app_settings\<lparr>format := fmt\<rparr>) = Fin 30"
    "duration (app_settings\<lparr>format := fmt\<rparr>) = Fin 4" "(0::rat) < 30" "(0::rat) < 4"
    "round53 (4 * 30) \<le> 2 ^ 53"
    by (simp_all add: app_settings_def example_round53)
  have acc: "recorder_accepts example_browser (selectedMime example_browser)"
    by (simp add: example_browser_def)
  have ok: "\<forall>k<frame_count 4 30. frame_ok example_browser ''<svg/>'' (frame_time (Fin 30) k)"
    by (simp add: example_frame_ok)
  from generateVideo_ok[OF s acc ok, of st] show ?thesis
    by (simp add: example_selectedMime example_frame_count) (simp add: example_browser_def)
qed

text \<open>
  C1, as amended. For finite \<open>fps = f > 0\<close> and \<open>duration = d > 0\<close> whose rounded product
  is at most \<open>2^53\<close>, \<open>totalFrames\<close> is the ceiling of the rounded product \<open>d * f\<close>; both
  capture loops end; a successful GIF or video export has seeked exactly that many
  frames, frame \<open>i\<close> at the double \<open>i * (1 / f)\<close> (the product of \<open>i\<close> and the rounded
  reciprocal), in index order. This is \<open>i / f\<close> exactly when \<open>f\<close> is a power of two (up to
  \<open>2^1000\<close>); for other rates it can differ from \<open>i / f\<close> in the last bit.
\<close>

theorem frame_count_and_timestamps:
  assumes "fps cfg = Fin f" "duration cfg = Fin d" "0 < f" "0 < d" "round53 (d * f) \<le> 2 ^ 53"
  shows
   "Math_ceil (js_mul (duration cfg) (fps cfg)) = Fin (of_nat (frame_count d f))
    \<and> gif_loop (\<lambda>time. captureFrame env svg time cfg)
         (Math_ceil (js_mul (duration cfg) (fps cfg))) (js_div (Fin 1) (fps cfg)) (Fin 0) [] st
        \<noteq> None
    \<and> generateVideo env svg cfg st \<noteq> None
    \<and> (\<forall>b st'. generateGif env svg cfg st = Some (Inr b, st') \<longrightarrow>
          capture_times (trace st')
            = capture_times (trace st) @ frame_times (Fin f) (frame_count d f))
    \<and> (\<forall>b st'. generateVideo env svg cfg st = Some (Inr b, st') \<longrightarrow>
          capture_times (trace st')
            = capture_times (trace st) @ frame_times (Fin f) (frame_count d f))
    \<and> length (frame_times (Fin f) (frame_count d f)) = frame_count d f
    \<and> (\<forall>i<frame_count d f.
          frame_times (Fin f) (frame_count d f) ! i
            = js_mul (Fin (of_nat i)) (js_div (Fin 1) (Fin f)))
    \<and> (\<forall>k i. f = 2 ^ k \<and> k \<le> 1000 \<and> i < frame_count d f \<longrightarrow>
          frame_times (Fin f) (frame_count d f) ! i = Fin (of_nat i / f))"
proof -
  let ?N = "frame_count d f"
  let ?ok = "\<lambda>k. frame_ok env svg (frame_time (Fin f) k)"
  have n53: "?N \<le> 2 ^ 53"
    using total_frames(2)[OF assms(3,4,5)] by (simp add: frame_count_def)
  have c1: "Math_ceil (js_mul (duration cfg) (fps cfg)) = Fin (of_nat ?N)"
    using total_frames(1)[OF assms(3,4,5)] assms(1,2) by (simp add: frame_count_def)
  have c2: "gif_loop (\<lambda>time. captureFrame env svg time cfg)
         (Math_ceil (js_mul (duration cfg) (fps cfg))) (js_div (Fin 1) (fps cfg)) (Fin 0) [] st
        \<noteq> None"
    using gif_settings[OF assms] by simp
  have c3: "generateVideo env svg cfg st \<noteq> None"
  proof (cases "recorder_accepts env (selectedMime env)")
    case False
    then show ?thesis by (simp add: generateVideo_def Let_def)
  next
    case acc: True
    show ?thesis
    proof (cases "\<forall>k<?N. ?ok k")
      case True
      from generateVideo_ok[OF assms acc True, of st] show ?thesis by auto
    next
      case False
      then obtain j where "j < ?N" "\<not> ?ok j" "\<forall>k<j. ?ok k" by (rule first_failure)
      from generateVideo_fail[OF assms acc this(1,3,2), of st] show ?thesis by auto
    qed
  qed
  have c4: "capture_times (trace st') = capture_times (trace st) @ frame_times (Fin f) ?N"
    if run: "generateGif env svg cfg st = Some (Inr b, st')" for b st'
  proof -
    obtain gs where eng: "waitForGifshot env = Inr gs"
      using run by (cases "waitForGifshot env") (simp_all add: generateGif_def)
    have all: "\<forall>k<?N. ?ok k"
    proof (rule ccontr)
      assume "\<not> (\<forall>k<?N. ?ok k)"
      then obtain j where "j < ?N" "\<not> ?ok j" "\<forall>k<j. ?ok k" by (rule first_failure)
      from generateGif_fail[OF assms eng this(1,3,2), of st] run show False by auto
    qed
    from generateGif_ok[OF assms eng all, of st] obtain frames pre st'' where
      ct: "capture_times pre = frame_times (Fin f) ?N"
      and tr: "trace st'' = trace st @ pre @ [CreateGIF (Fin (of_nat ?N))]
             @ map Progress
                 (encode_progress
                    (progress_calls
                       (gs \<lparr>images = frames, gifWidth = canvas_width st, gifHeight = canvas_height st,
                            interval = js_div (Fin 1) (Fin f), numFrames = Fin (of_nat ?N)\<rparr>)))"
      and g: "generateGif env svg cfg st
             = (let obj = gs \<lparr>images = frames, gifWidth = canvas_width st,
                              gifHeight = canvas_height st, interval = js_div (Fin 1) (Fin f),
                              numFrames = Fin (of_nat ?N)\<rparr>
                in if \<not> gif_error obj
                   then (case fetch_blob env (image obj) of
                           None \<Rightarrow> None
                         | Some b \<Rightarrow> Some (Inr b, st''))
                   else Some (Inl (Error (''GIF generation failed: '' @ errorMsg obj)), st''))"
      by blast
    from g run have "st' = st''" by (auto simp: Let_def split: if_splits option.splits)
    then show ?thesis using tr ct by simp
  qed
  have c5: "capture_times (trace st') = capture_times (trace st) @ frame_times (Fin f) ?N"
    if run: "generateVideo env svg cfg st = Some (Inr b, st')" for b st'
  proof -
    have acc: "recorder_accepts env (selectedMime env)"
      using run by (cases "recorder_accepts env (selectedMime env)") (simp_all add: generateVideo_def Let_def)
    have all: "\<forall>k<?N. ?ok k"
    proof (rule ccontr)
      assume "\<not> (\<forall>k<?N. ?ok k)"
      then obtain j where "j < ?N" "\<not> ?ok j" "\<forall>k<j. ?ok k" by (rule first_failure)
      from generateVideo_fail[OF assms acc this(1,3,2), of st] run show False by auto
    qed
    from generateVideo_ok[OF assms acc all, of st] run show ?thesis by auto
  qed
  have c6: "length (frame_times (Fin f) ?N) = ?N" by (simp add: frame_times_def)
  have c7: "frame_times (Fin f) ?N ! i = js_mul (Fin (of_nat i)) (js_div (Fin 1) (Fin f))"
    if "i < ?N" for i
    using that by (simp add: frame_times_def frame_time_def)
  have c8: "frame_times (Fin f) ?N ! i = Fin (of_nat i / f)"
    if h: "f = 2 ^ k \<and> k \<le> 1000 \<and> i < ?N" for k i
  proof -
    from h have fk: "f = 2 ^ k" and k: "k \<le> 1000" and i: "i < ?N" by blast+
    from i have "i < 2 ^ 53" using n53 by (rule less_le_trans)
    with k have "frame_time (Fin (2 ^ k)) i = Fin (of_nat i / 2 ^ k)" by (rule frame_time_pow2)
    then have "frame_time (Fin f) i = Fin (of_nat i / f)" unfolding fk .
    moreover have "frame_times (Fin f) ?N ! i = frame_time (Fin f) i"
      using i by (simp add: frame_times_def)
    ultimately show ?thesis by simp
  qed
  from c1 c2 c3 c4 c5 c6 c7 c8 show ?thesis by blast
qed

theorem frame_count_and_timestamps_witness:
  "fps app_settings = Fin 30 \<and> duration app_settings = Fin 4 \<and> (0::rat) < 30 \<and> (0::rat) < 4
   \<and> round53 (4 * 30) \<le> 2 ^ 53
   \<and> Math_ceil (js_mul (duration app_settings) (fps app_settings)) = Fin 120
   \<and> (\<exists>b st'. generateVideo example_browser ''<svg/>'' app_settings fresh_converter = Some (Inr b, st')
         \<and> capture_times (trace st') = frame_times (Fin 30) 120)
   \<and> frame_times (Fin 30) 120 ! 23 = js_mul (Fin 23) (js_div (Fin 1) (Fin 30))
   \<and> (32::rat) = 2 ^ 5
   \<and> frame_times (Fin 32) (frame_count 4 32) ! 5 = Fin (5 / 32)"
proof -
  have s: "fps app_settings = Fin 30" "duration app_settings = Fin 4" "(0::rat) < 30" "(0::rat) < 4"
    "round53 (4 * 30) \<le> 2 ^ 53"
    by (simp_all add: app_settings_def example_round53)
  note t = frame_count_and_timestamps[OF s, of example_browser "''<svg/>''" fresh_converter]
  from example_video_run[of MP4 fresh_converter] obtain st' where
    run: "generateVideo example_browser ''<svg/>'' app_settings fresh_converter
           = Some (Inr \<lparr>blob_parts = [''webm-or-mp4-bytes''],
                        blob_type = ''video/mp4;codecs=h264''\<rparr>, st')"
    by (auto simp: app_settings_def)
  have a: "Math_ceil (js_mul (duration app_settings) (fps app_settings)) = Fin 120"
    using t by (simp add: example_frame_count)
  have b: "capture_times (trace st') = frame_times (Fin 30) 120"
    using t run by (simp add: example_frame_count fresh_converter_def)
  have c: "frame_times (Fin 30) 120 ! 23 = js_mul (Fin 23) (js_div (Fin 1) (Fin 30))"
    using t by (simp add: example_frame_count)
  have s2: "fps (app_settings\<lparr>fps := Fin 32\<rparr>) = Fin 32"
    "duration (app_settings\<lparr>fps := Fin 32\<rparr>) = Fin 4" "(0::rat) < 32" "(0::rat) < 4"
    "round53 (4 * 32) \<le> 2 ^ 53"
    by (simp_all add: app_settings_def example_round53)
  have p: "(32::rat) = 2 ^ 5" by simp
  have "(32::rat) = 2 ^ 5 \<and> (5::nat) \<le> 1000 \<and> 5 < frame_count 4 32"
    by (simp add: example_frame_count)
  with frame_count_and_timestamps[OF s2, of example_browser "''<svg/>''" fresh_converter]
  have d: "frame_times (Fin 32) (frame_count 4 32) ! 5 = Fin (of_nat 5 / 32)"
    by blast
  from s a run b c p d show ?thesis by simp
qed

theorem frame_23_is_not_at_23_over_30:
  "map_option (\<lambda>r. capture_times (trace (snd r)) ! 23)
     (generateVideo example_browser ''<svg/>'' app_settings fresh_converter)
     = Some (Fin (863189928579345 / 1125899906842624))
   \<and> js_div (Fin 23) (Fin 30) = Fin (6905519428634761 / 9007199254740992)
   \<and> Fin (863189928579345 / 1125899906842624) \<noteq> js_div (Fin 23) (Fin 30)
   \<and> Fin (863189928579345 / 1125899906842624) \<noteq> Fin (23 / 30)"
proof -
  from example_video_run[of MP4 fresh_converter] obtain st' where
    run: "generateVideo example_browser ''<svg/>'' app_settings fresh_converter
           = Some (Inr \<lparr>blob_parts = [''webm-or-mp4-bytes''],
                        blob_type = ''video/mp4;codecs=h264''\<rparr>, st')"
    and ct: "capture_times (trace st') = frame_times (Fin 30) 120"
    by (auto simp: app_settings_def fresh_converter_def)
  have "frame_times (Fin 30) 120 ! 23 = frame_time (Fin 30) 23"
    by (simp add: frame_times_def)
  also have "\<dots> = Fin (863189928579345 / 1125899906842624)"
    using frame_23_time by (simp add: frame_time_def)
  finally have a: "capture_times (trace st') ! 23 = Fin (863189928579345 / 1125899906842624)"
    using ct by simp
  show ?thesis using run a frame_23_quotient by simp
qed

text \<open>
  C2. The claim lets a successful export end its progress reports at exactly 100. The
  video loop reports \<^verbatim>\<open>Math.round((i / totalFrames) * 100)\<close> after frame \<open>i\<close> and nothing
  after the loop: with the application's settings (30 frames a second for 4 seconds)
  the export succeeds and the last value reported is 99.
\<close>

theorem video_progress_ends_at_99:
  "map_option (\<lambda>r. (map_sum id blob_type (fst r), last (progress_values (trace (snd r)))))
     (generateVideo example_browser ''<svg/>'' app_settings fresh_converter)
     = Some (Inr ''video/mp4;codecs=h264'', Fin 99)"
proof -
  from example_video_run[of MP4 fresh_converter] obtain st' where
    run: "generateVideo example_browser ''<svg/>'' app_settings fresh_converter
           = Some (Inr \<lparr>blob_parts = [''webm-or-mp4-bytes''],
                        blob_type = ''video/mp4;codecs=h264''\<rparr>, st')"
    and pv: "progress_values (trace st') = capture_progress (Fin 100) 120"
    by (auto simp: app_settings_def fresh_converter_def)
  have "last (capture_progress (Fin 100) 120) = progress_at (Fin 100) 120 119"
    by (simp add: capture_progress_def last_map)
  then have "last (progress_values (trace st')) = Fin 99"
    using pv last_video_progress by simp
  then show ?thesis using run by simp
qed

section \<open>Container selection (claim C4)\<close>

lemma example_waitForGifshot: "waitForGifshot example_browser = Inr example_gifshot"
  by (simp add: waitForGifshot_def example_browser_def)

lemma example_gif_run:
  "\<exists>st' pre.
       generateGif example_browser ''<svg/>'' (app_settings\<lparr>format := fmt\<rparr>) st
         = Some (Inr \<lparr>blob_parts = [''data:image/gif;base64,R0lGODlh''], blob_type = ''image/gif''\<rparr>, st')
     \<and> trace st' = trace st @ pre @ [CreateGIF (Fin 120)]
         @ map Progress (encode_progress [Fin (1 / 2), Fin 1])
     \<and> capture_times pre = frame_times (Fin 30) 120
     \<and> progress_values pre = capture_progress (Fin 60) 120"
proof -
  have s: "fps (app_settings\<lparr>format := fmt\<rparr>) = Fin 30"
    "duration (app_settings\<lparr>format := fmt\<rparr>) = Fin 4" "(0::rat) < 30" "(0::rat) < 4"
    "round53 (4 * 30) \<le> 2 ^ 53"
    by (simp_all add: app_settings_def example_round53)
  have ok: "\<forall>k<frame_count 4 30. frame_ok example_browser ''<svg/>'' (frame_time (Fin 30) k)"
    by (simp add: example_frame_ok)
  from generateGif_ok[OF s example_waitForGifshot ok, of st] show ?thesis
    by (simp add: example_frame_count example_gifshot_def Let_def) (auto simp: example_browser_def)
qed

lemma example_getDimensions:
  "\<exists>w h. getDimensions example_browser ''<svg/>'' scl = Inr (w, h)"
  by (simp add: getDimensions_def example_browser_def dimension_of_def)


lemma generateVideo_blob_type:
  assumes "generateVideo env svg cfg st = Some (Inr b, st')"
  shows "blob_type b = selectedMime env"
  using assms
  by (auto simp: generateVideo_def Let_def split: if_splits option.splits sum.splits prod.splits)

lemma example_convert_video:
  assumes "fmt \<noteq> GIF"
  shows "\<exists>st'. convert example_browser ''<svg/>'' (app_settings\<lparr>format := fmt\<rparr>) fresh_converter
           = Some (Inr \<lparr>blob_parts = [''webm-or-mp4-bytes''],
                        blob_type = ''video/mp4;codecs=h264''\<rparr>, st')"
proof -
  obtain w h where
    d: "getDimensions example_browser ''<svg/>'' (scale app_settings) = Inr (w, h)"
    using example_getDimensions by blast
  from example_video_run[of fmt "resize_canvas example_browser w h fresh_converter"]
  show ?thesis using assms by (auto simp: convert_def d Let_def)
qed

lemma example_convert_gif:
  "\<exists>st'. convert example_browser ''<svg/>'' (app_settings\<lparr>format := GIF\<rparr>) fresh_converter
           = Some (Inr \<lparr>blob_parts = [''data:image/gif;base64,R0lGODlh''],
                        blob_type = ''image/gif''\<rparr>, st')"
proof -
  obtain w h where
    d: "getDimensions example_browser ''<svg/>'' (scale app_settings) = Inr (w, h)"
    using example_getDimensions by blast
  from example_gif_run[of GIF "resize_canvas example_browser w h fresh_converter"]
  show ?thesis by (auto simp: convert_def d Let_def)
qed

text \<open>
  C4. The claim tags the blob of an export with the MIME type of the chosen output
  format. \<open>generateVideo\<close> never reads \<^verbatim>\<open>settings.format\<close>: whichever of MP4 and WEBM is
  chosen, the recorder and the blob get the first supported entry of the preference
  list. In a browser that supports H.264 in MP4, an export with format WEBM returns a
  blob of type \<^verbatim>\<open>video/mp4;codecs=h264\<close>, and the application, which goes by
  \<^verbatim>\<open>settings.format\<close>, offers it for download under a name that ends in \<^verbatim>\<open>.webm\<close>.
\<close>

theorem webm_request_yields_mp4_blob:
  "isTypeSupported example_browser ''video/mp4;codecs=h264''
   \<and> format (app_settings\<lparr>format := WEBM\<rparr>) = WEBM
   \<and> map_option (\<lambda>r. map_sum id blob_type (fst r))
        (convert example_browser ''<svg/>'' (app_settings\<lparr>format := WEBM\<rparr>) fresh_converter)
      = Some (Inr ''video/mp4;codecs=h264'')
   \<and> ''video/mp4;codecs=h264'' \<noteq> ''video/webm''
   \<and> download_name ''1700000000000'' (app_settings\<lparr>format := WEBM\<rparr>)
      = ''vector-export-1700000000000.webm''"
proof -
  from example_convert_video[of WEBM] obtain st' where
    "convert example_browser ''<svg/>'' (app_settings\<lparr>format := WEBM\<rparr>) fresh_converter
           = Some (Inr \<lparr>blob_parts = [''webm-or-mp4-bytes''],
                        blob_type = ''video/mp4;codecs=h264''\<rparr>, st')"
    by auto
  then show ?thesis by (simp add: download_name_def example_browser_def)
qed

section \<open>The progress values of the two phases of a GIF export\<close>

lemma capture_progress_range:
  assumes "n \<le> 2 ^ 53" "s \<le> 2 ^ 53"
  shows "\<forall>v\<in>set (capture_progress (Fin (of_nat s)) n). \<exists>m. v = Fin (of_nat m) \<and> m \<le> s"
  using progress_at_range[OF _ assms] by (auto simp: capture_progress_def)

lemma encode_progress_values:
  assumes "\<forall>p\<in>set ps. \<exists>x. p = Fin x \<and> 0 \<le> x \<and> x \<le> 1"
  shows "\<forall>v\<in>set (encode_progress ps). \<exists>m. v = Fin (of_nat m) \<and> 60 \<le> m \<and> m \<le> 100"
proof
  fix v assume "v \<in> set (encode_progress ps)"
  then obtain p where p: "p \<in> set ps" and v: "v = js_add (Fin 60) (Math_round (js_mul p (Fin 40)))"
    by (auto simp: encode_progress_def)
  from assms p obtain x where "p = Fin x" "0 \<le> x" "x \<le> 1" by blast
  with encode_progress_range[of x] v show "\<exists>m. v = Fin (of_nat m) \<and> 60 \<le> m \<and> m \<le> 100"
    by simp
qed

lemma encode_progress_last:
  assumes "ps \<noteq> []" "last ps = Fin 1"
  shows "encode_progress ps \<noteq> [] \<and> last (encode_progress ps) = Fin 100"
  using assms by (simp add: encode_progress_def last_map encode_progress_final)

lemma projections_of_CreateGIF [simp]:
  "capture_times (CreateGIF n # es) = capture_times es"
  "progress_values (CreateGIF n # es) = progress_values es"
  "canvas_ops (CreateGIF n # es) = canvas_ops es"
  by simp_all

section \<open>A failing frame (claim C6)\<close>

lemma projections_of_RecorderStart [simp]:
  "capture_times (RecorderStart m b # es) = capture_times es"
  "progress_values (RecorderStart m b # es) = progress_values es"
  "canvas_ops (RecorderStart m b # es) = canvas_ops es"
  "blob_texts (RecorderStart m b # es) = blob_texts es"
  by simp_all





lemma trace_resize_canvas [simp]: "trace (resize_canvas env w h st) = trace st"
  by (simp add: resize_canvas_def)

lemma convert_after_getDimensions:
  assumes "getDimensions env svg (scale cfg) = Inr (w, h)"
  shows "convert env svg cfg st
           = (if format cfg = GIF then generateGif env svg cfg (resize_canvas env w h st)
              else generateVideo env svg cfg (resize_canvas env w h st))"
  using assms by (simp add: convert_def Let_def)







section \<open>The end of the capture phase (claim C5)\<close>

lemma example_gif_export:
  assumes "0 < f" "0 < d" "round53 (d * f) \<le> 2 ^ 53"
  shows "\<exists>st' pre.
       convert example_browser ''<svg/>''
         (app_settings\<lparr>fps := Fin f, duration := Fin d, format := GIF\<rparr>) fresh_converter
         = Some (Inr \<lparr>blob_parts = [''data:image/gif;base64,R0lGODlh''], blob_type = ''image/gif''\<rparr>, st')
     \<and> trace st' = pre @ [CreateGIF (Fin (of_nat (frame_count d f)))]
         @ map Progress (encode_progress [Fin (1 / 2), Fin 1])
     \<and> capture_times pre = frame_times (Fin f) (frame_count d f)
     \<and> progress_values pre = capture_progress (Fin 60) (frame_count d f)"
proof -
  let ?cfg = "app_settings\<lparr>fps := Fin f, duration := Fin d, format := GIF\<rparr>"
  have s: "fps ?cfg = Fin f" "duration ?cfg = Fin d" by simp_all
  have ok: "\<forall>k<frame_count d f. frame_ok example_browser ''<svg/>'' (frame_time (Fin f) k)"
    by (simp add: example_frame_ok)
  obtain w h where
    dm: "getDimensions example_browser ''<svg/>'' (scale ?cfg) = Inr (w, h)"
    using example_getDimensions by blast
  have c: "convert example_browser ''<svg/>'' ?cfg fresh_converter
             = generateGif example_browser ''<svg/>'' ?cfg (resize_canvas example_browser w h fresh_converter)"
    using convert_after_getDimensions[OF dm, of fresh_converter] by simp
  have t0: "trace (resize_canvas example_browser w h fresh_converter) = []"
    by (simp add: fresh_converter_def)
  from generateGif_ok[OF s assms example_waitForGifshot ok,
         of "resize_canvas example_browser w h fresh_converter"]
  show ?thesis
    unfolding c t0
    by (simp add: example_gifshot_def Let_def) (auto simp: example_browser_def)
qed

lemma encode_progress_half:
  "js_add (Fin 60) (Math_round (js_mul (Fin (1 / 2)) (Fin 40))) = Fin 80"
proof -
  have a: "rnd 20 = Fin 20" using rnd_of_nat[of 20] by simp
  have b: "Math_round (Fin 20) = Fin 20" using Math_round_of_int[of 20] by simp
  have c: "rnd 80 = Fin 80" using rnd_of_nat[of 80] by simp
  show ?thesis by (simp add: js_mul.simps js_add.simps a b c)
qed

lemma example_encode_progress:
  "map Progress (encode_progress [Fin (1 / 2), Fin 1]) = [Progress (Fin 80), Progress (Fin 100)]"
  by (simp add: encode_progress_def encode_progress_half encode_progress_final)

lemma small_frame_counts: "frame_count 1 1 = 1" "frame_count 1 10 = 10"
  using round53_of_nat[of 1] round53_of_nat[of 10] by (simp_all add: frame_count_def)

lemma first_capture_progress: "progress_at (Fin 60) 1 0 = Fin 0"
  by (simp add: progress_at_def js_div.simps js_mul.simps)

lemma rnd_9_10: "rnd (9 / 10) = Fin (8106479329266893 / 9007199254740992)"
proof -
  have "rnd (9 / 10) = Fin (of_int 8106479329266893 * 2 powi (- 1 - 52))"
    by (rule rnd_eqI) (simp_all add: power_int_def power_divide)
  then show ?thesis by (simp add: power_int_def power_divide)
qed

lemma tenth_capture_progress: "progress_at (Fin 60) 10 9 = Fin 54"
proof -
  have "rnd (8106479329266893 / 9007199254740992 * 60)
          = Fin (of_int 7599824371187712 * 2 powi (5 - 52))"
    by (rule rnd_eqI) (simp_all add: power_int_def power_divide)
  then have m: "rnd (8106479329266893 / 9007199254740992 * 60) = Fin 54"
    by (simp add: power_int_def power_divide)
  have f: "Math_round (Fin 54) = Fin 54" using Math_round_of_int[of 54] by simp
  show ?thesis
    using m f by (simp add: progress_at_def js_div.simps js_mul.simps rnd_9_10)
qed

text \<open>
  C5. The claim lets the progress of a GIF export pass through about 60 at the end of
  the capture phase. The capture loop reports \<^verbatim>\<open>Math.round((i / totalFrames) * 60)\<close> after
  frame \<open>i\<close>, counted from 0, and nothing more before \<^verbatim>\<open>createGIF\<close> is called. An export of
  one frame (one frame a second for one second) succeeds with an \<^verbatim>\<open>image/gif\<close> blob,
  and the only value of its capture phase is 0; the next values, 80 and 100, are those
  of the encoder. An export of ten frames ends its capture phase at 54.
\<close>

theorem gif_capture_phase_ends_below_60:
  "(\<exists>b st' pre.
       convert example_browser ''<svg/>''
         (app_settings\<lparr>fps := Fin 1, duration := Fin 1, format := GIF\<rparr>) fresh_converter
         = Some (Inr b, st')
     \<and> blob_type b = ''image/gif''
     \<and> trace st' = pre @ [CreateGIF (Fin 1), Progress (Fin 80), Progress (Fin 100)]
     \<and> length (capture_times pre) = 1
     \<and> progress_values pre = [Fin 0]
     \<and> progress_values (trace st') = [Fin 0, Fin 80, Fin 100])
   \<and> (\<exists>b st' pre.
       convert example_browser ''<svg/>''
         (app_settings\<lparr>fps := Fin 10, duration := Fin 1, format := GIF\<rparr>) fresh_converter
         = Some (Inr b, st')
     \<and> blob_type b = ''image/gif''
     \<and> trace st' = pre @ [CreateGIF (Fin 10), Progress (Fin 80), Progress (Fin 100)]
     \<and> length (capture_times pre) = 10
     \<and> last (progress_values pre) = Fin 54)"
proof
  have r: "round53 (1 * 1) \<le> 2 ^ 53" using round53_of_nat[of 1] by simp
  from example_gif_export[of 1 1, OF _ _ r] obtain st' pre where
    c: "convert example_browser ''<svg/>''
          (app_settings\<lparr>fps := Fin 1, duration := Fin 1, format := GIF\<rparr>) fresh_converter
          = Some (Inr \<lparr>blob_parts = [''data:image/gif;base64,R0lGODlh''],
                       blob_type = ''image/gif''\<rparr>, st')"
    and t: "trace st' = pre @ [CreateGIF (Fin 1), Progress (Fin 80), Progress (Fin 100)]"
    and ct: "capture_times pre = frame_times (Fin 1) 1"
    and pv: "progress_values pre = capture_progress (Fin 60) 1"
    by (auto simp: small_frame_counts example_encode_progress)
  have p: "progress_values pre = [Fin 0]"
    using pv first_capture_progress by (simp add: capture_progress_def)
  have l: "length (capture_times pre) = 1" using ct by (simp add: frame_times_def)
  have a: "progress_values (trace st') = [Fin 0, Fin 80, Fin 100]"
    unfolding t using p by simp
  show "\<exists>b st' pre.
       convert example_browser ''<svg/>''
         (app_settings\<lparr>fps := Fin 1, duration := Fin 1, format := GIF\<rparr>) fresh_converter
         = Some (Inr b, st')
     \<and> blob_type b = ''image/gif''
     \<and> trace st' = pre @ [CreateGIF (Fin 1), Progress (Fin 80), Progress (Fin 100)]
     \<and> length (capture_times pre) = 1
     \<and> progress_values pre = [Fin 0]
     \<and> progress_values (trace st') = [Fin 0, Fin 80, Fin 100]"
    using c t l p a by (intro exI[of _ "\<lparr>blob_parts = [''data:image/gif;base64,R0lGODlh''],
                       blob_type = ''image/gif''\<rparr>"] exI[of _ st'] exI[of _ pre]) simp
next
  have r: "round53 (1 * 10) \<le> 2 ^ 53" using round53_of_nat[of 10] by simp
  from example_gif_export[of 10 1, OF _ _ r] obtain st' pre where
    c: "convert example_browser ''<svg/>''
          (app_settings\<lparr>fps := Fin 10, duration := Fin 1, format := GIF\<rparr>) fresh_converter
          = Some (Inr \<lparr>blob_parts = [''data:image/gif;base64,R0lGODlh''],
                       blob_type = ''image/gif''\<rparr>, st')"
    and t: "trace st' = pre @ [CreateGIF (Fin 10), Progress (Fin 80), Progress (Fin 100)]"
    and ct: "capture_times pre = frame_times (Fin 10) 10"
    and pv: "progress_values pre = capture_progress (Fin 60) 10"
    by (auto simp: small_frame_counts example_encode_progress)
  have "last (capture_progress (Fin 60) 10) = progress_at (Fin 60) 10 9"
    by (simp add: capture_progress_def last_map)
  then have p: "last (progress_values pre) = Fin 54"
    using pv tenth_capture_progress by simp
  have l: "length (capture_times pre) = 10" using ct by (simp add: frame_times_def)
  show "\<exists>b st' pre.
       convert example_browser ''<svg/>''
         (app_settings\<lparr>fps := Fin 10, duration := Fin 1, format := GIF\<rparr>) fresh_converter
         = Some (Inr b, st')
     \<and> blob_type b = ''image/gif''
     \<and> trace st' = pre @ [CreateGIF (Fin 10), Progress (Fin 80), Progress (Fin 100)]
     \<and> length (capture_times pre) = 10
     \<and> last (progress_values pre) = Fin 54"
    using c t l p by (intro exI[of _ "\<lparr>blob_parts = [''data:image/gif;base64,R0lGODlh''],
                       blob_type = ''image/gif''\<rparr>"] exI[of _ st'] exI[of _ pre]) simp
qed

end
